theory Spec2Isabelle
  imports Complex_Main "HOL-Library.Sublist"
begin

section \<open>Python strings\<close>

text \<open>
  A Python \<open>str\<close> is a sequence of Unicode code points, and \<open>len\<close> counts code points.
  A code point is a natural number here, so that the full-width bar U+FF5C of
  \<open>_create_fallback_metadata\<close> is one unit, as it is in Python. \<open>str\<close> turns an
  ASCII literal into its code points.
\<close>

type_synonym pystr = "nat list"

definition str :: "string \<Rightarrow> pystr" where
  "str s = map of_char s"

text \<open>
  \<open>str.isspace\<close> for one code point: the characters CPython's \<open>Py_UNICODE_ISSPACE\<close>
  accepts (U+0009..000D, U+001C..0020, U+0085, U+00A0, U+1680, U+2000..200A, U+2028,
  U+2029, U+202F, U+205F, U+3000). \<open>str.strip()\<close>, \<open>str.split()\<close> and the regular
  expression class \<open>\s\<close> all use this set.
\<close>

definition isspace :: "nat \<Rightarrow> bool" where
  "isspace c \<longleftrightarrow>
     (9 \<le> c \<and> c \<le> 13) \<or> (28 \<le> c \<and> c \<le> 32) \<or> c = 133 \<or> c = 160 \<or> c = 5760 \<or>
     (8192 \<le> c \<and> c \<le> 8202) \<or> c = 8232 \<or> c = 8233 \<or> c = 8239 \<or> c = 8287 \<or> c = 12288"

text \<open>\<open>s.strip()\<close>: leading and trailing whitespace removed.\<close>

definition strip :: "pystr \<Rightarrow> pystr" where
  "strip s = rev (dropWhile isspace (rev (dropWhile isspace s)))"

text \<open>
  \<open>s.split()\<close> with no separator: the maximal runs of non-whitespace, in order. The
  scan keeps the word read so far in \<open>cur\<close>; a whitespace character closes it.
\<close>

fun split_scan :: "pystr \<Rightarrow> pystr \<Rightarrow> pystr list" where
  "split_scan cur [] = (if cur = [] then [] else [cur])"
| "split_scan cur (c # cs) =
     (if isspace c then (if cur = [] then split_scan [] cs else cur # split_scan [] cs)
      else split_scan (cur @ [c]) cs)"

definition split_ws :: "pystr \<Rightarrow> pystr list" where
  "split_ws s = split_scan [] s"

text \<open>\<open>sep.join(xs)\<close>.\<close>

fun py_join :: "pystr \<Rightarrow> pystr list \<Rightarrow> pystr" where
  "py_join sep [] = []"
| "py_join sep [x] = x"
| "py_join sep (x # y # ys) = x @ sep @ py_join sep (y # ys)"

text \<open>The idiom \<open>' '.join(title.split())\<close> of the source.\<close>

definition collapse_ws :: "pystr \<Rightarrow> pystr" where
  "collapse_ws s = py_join (str '' '') (split_ws s)"

text \<open>A word of a normalised title: non-empty and free of whitespace.\<close>

definition word_ok :: "pystr \<Rightarrow> bool" where
  "word_ok w \<longleftrightarrow> w \<noteq> [] \<and> list_all (\<lambda>c. \<not> isspace c) w"

section \<open>Title sanitization\<close>

definition MAX_TITLE_LENGTH :: nat where
  "MAX_TITLE_LENGTH = 100"

text \<open>
  \<open>YouTubeBot._sanitize_title\<close>: strip, collapse whitespace, cut to 97 units plus
  \<open>...\<close> when longer than 100, and replace an empty title by a placeholder.
\<close>

definition sanitize_title :: "pystr \<Rightarrow> pystr" where
  "sanitize_title title0 =
     (let title1 = strip title0;
          title2 = collapse_ws title1;
          title3 = (if length title2 > MAX_TITLE_LENGTH
                    then take (MAX_TITLE_LENGTH - 3) title2 @ str ''...''
                    else title2)
      in if title3 = [] then str ''Untitled Video'' else title3)"


section \<open>More string operations\<close>

text \<open>
  The exceptions the model distinguishes. Every \<open>raise\<close> of the source or of a library
  call it makes is a value \<open>Inl e\<close> of a result type \<open>py_error + 'a\<close>. An \<open>HttpError\<close>
  carries the status of its response, \<open>e.resp.status\<close>, which the handler in
  \<open>upload_video\<close> reads; it is \<open>None\<close> for an error without a response (\<open>e.resp\<close> is
  \<open>None\<close>, as in the subclass \<open>BatchError\<close> of the client library), where reading the
  status raises \<open>AttributeError\<close>.
\<close>

datatype py_error =
  HttpError "nat option" | ValueError | IndexError | OverflowError | AttributeError | OtherError

text \<open>\<open>xs[i]\<close> for a non-negative index: \<open>IndexError\<close> out of range.\<close>

definition index :: "'a list \<Rightarrow> nat \<Rightarrow> py_error + 'a" where
  "index xs i = (if i < length xs then Inr (xs ! i) else Inl IndexError)"

text \<open>\<open>sub in s\<close>: \<open>sub\<close> occurs in \<open>s\<close> as a contiguous substring.\<close>

fun contains :: "pystr \<Rightarrow> pystr \<Rightarrow> bool" where
  "contains sub [] = (sub = [])"
| "contains sub (c # cs) = (prefix sub (c # cs) \<or> contains sub cs)"

text \<open>
  \<open>s.split(sep)\<close> and \<open>s.replace(old, new)\<close> for a non-empty \<open>sep\<close> or \<open>old\<close> (the
  source passes literals only): the occurrences are found from the left and do not
  overlap. After an occurrence at the head of \<open>c # cs\<close> the scan resumes behind it, that
  is \<open>length sep - 1\<close> characters into \<open>cs\<close>.
\<close>

fun split_sep_scan :: "pystr \<Rightarrow> pystr \<Rightarrow> pystr \<Rightarrow> pystr list" where
  "split_sep_scan sep cur [] = [cur]"
| "split_sep_scan sep cur (c # cs) =
     (if prefix sep (c # cs) then cur # split_sep_scan sep [] (drop (length sep - 1) cs)
      else split_sep_scan sep (cur @ [c]) cs)"

definition py_split :: "pystr \<Rightarrow> pystr \<Rightarrow> pystr list" where
  "py_split sep s = split_sep_scan sep [] s"

fun py_replace :: "pystr \<Rightarrow> pystr \<Rightarrow> pystr \<Rightarrow> pystr" where
  "py_replace old new [] = []"
| "py_replace old new (c # cs) =
     (if prefix old (c # cs) then new @ py_replace old new (drop (length old - 1) cs)
      else c # py_replace old new cs)"

text \<open>\<open>s.rfind(c)\<close> for one character: the last index of \<open>c\<close>, \<open>None\<close> for Python's -1.\<close>

definition rfind :: "nat \<Rightarrow> pystr \<Rightarrow> nat option" where
  "rfind c s =
     (let n = length (takeWhile (\<lambda>x. x \<noteq> c) (rev s))
      in if n = length s then None else Some (length s - 1 - n))"

section \<open>Unicode tables\<close>

text \<open>
  Some library calls of the source depend on the Unicode character database for code
  points outside ASCII. Those tables are not part of the repository; they are a parameter
  of the model. Every theorem below holds for every value of this parameter.
  \<^item> \<open>u_alnum c\<close>: \<open>str.isalnum\<close> of a code point \<open>c \<ge> 128\<close> (for the class \<open>\w\<close>);
  \<^item> \<open>u_digit c\<close>: the value of a decimal digit \<open>c \<ge> 128\<close> (for \<open>\d\<close> and \<open>int\<close>);
  \<^item> \<open>u_lower s\<close>: \<open>s.lower()\<close> for a string with a code point outside ASCII.
  \<open>ascii_db\<close> is the table with no letters or digits outside ASCII, for concrete runs.
\<close>

record unicode_db =
  u_alnum :: "nat \<Rightarrow> bool"
  u_digit :: "nat \<Rightarrow> nat option"
  u_lower :: "pystr \<Rightarrow> pystr"

definition ascii_db :: unicode_db where
  "ascii_db = \<lparr>u_alnum = (\<lambda>c. False), u_digit = (\<lambda>c. None), u_lower = (\<lambda>s. s)\<rparr>"

text \<open>The class \<open>\w\<close> of a \<open>str\<close> pattern: alphanumeric or the underscore.\<close>

definition is_word :: "unicode_db \<Rightarrow> nat \<Rightarrow> bool" where
  "is_word U c \<longleftrightarrow>
     (if c < 128
      then (48 \<le> c \<and> c \<le> 57) \<or> (65 \<le> c \<and> c \<le> 90) \<or> (97 \<le> c \<and> c \<le> 122) \<or> c = 95
      else u_alnum U c)"

section \<open>Paths\<close>

text \<open>
  \<open>Path(p).name\<close> and \<open>Path(p).stem\<close> in the POSIX flavour of \<open>pathlib\<close>: the components
  are the pieces between slashes, empty pieces and \<open>.\<close> dropped; the name is the last
  component (empty when there is none); the stem cuts the name at its last dot, unless
  that dot is the first or the last character of the name.
\<close>

definition path_name :: "pystr \<Rightarrow> pystr" where
  "path_name p =
     (case filter (\<lambda>x. x \<noteq> [] \<and> x \<noteq> str ''.'') (py_split (str ''/'') p) of
        [] \<Rightarrow> []
      | x # xs \<Rightarrow> last (x # xs))"

definition path_stem :: "pystr \<Rightarrow> pystr" where
  "path_stem p =
     (let name = path_name p
      in case rfind 46 name of
           None \<Rightarrow> name
         | Some i \<Rightarrow> if 0 < i \<and> Suc i < length name then take i name else name)"

section \<open>Fallback metadata\<close>

text \<open>
  The pattern \<open>\[[\w-]+\]$\<close> matched at the head of a string: \<open>[\<close>, a maximal non-empty
  run of word characters and hyphens, \<open>]\<close>, and then the end of the string or a final
  newline (Python's \<open>$\<close> without \<open>MULTILINE\<close>). The result is the text behind the match.
  A closing bracket is not in the class, so a shorter run cannot match either.
\<close>

definition tag_char :: "unicode_db \<Rightarrow> nat \<Rightarrow> bool" where
  "tag_char U c \<longleftrightarrow> is_word U c \<or> c = 45"

definition match_tag :: "unicode_db \<Rightarrow> pystr \<Rightarrow> pystr option" where
  "match_tag U s =
     (case s of
        [] \<Rightarrow> None
      | c # cs \<Rightarrow>
          if c \<noteq> 91 then None
          else if takeWhile (tag_char U) cs = [] then None
          else (case dropWhile (tag_char U) cs of
                  [] \<Rightarrow> None
                | d # rest \<Rightarrow>
                    if d = 93 \<and> (rest = [] \<or> rest = [10]) then Some rest else None))"

lemma match_tag_shorter: "match_tag U s = Some rest \<Longrightarrow> length rest < length s"
proof -
  assume m: "match_tag U s = Some rest"
  then obtain c cs where s: "s = c # cs"
    by (cases s) (simp_all add: match_tag_def)
  from m s obtain d where d: "dropWhile (tag_char U) cs = d # rest"
    by (auto simp: match_tag_def split: if_splits list.splits)
  have "length (dropWhile (tag_char U) cs) \<le> length cs"
    by (rule length_dropWhile_le)
  with d s show ?thesis by simp
qed

text \<open>\<open>re.sub(r'\[[\w-]+\]$', '', s)\<close>: every match, found from the left, is deleted.\<close>

function re_sub_tag :: "unicode_db \<Rightarrow> pystr \<Rightarrow> pystr" where
  "re_sub_tag U [] = []"
| "re_sub_tag U (c # cs) =
     (case match_tag U (c # cs) of
        Some rest \<Rightarrow> re_sub_tag U rest
      | None \<Rightarrow> c # re_sub_tag U cs)"
  by pat_completeness auto
termination
  by (relation "measure (\<lambda>(U, s). length s)") (auto dest: match_tag_shorter)

text \<open>The dictionary with the keys \<open>title\<close> and \<open>description\<close>.\<close>

record metadata =
  title :: pystr
  description :: pystr

text \<open>\<open>YouTubeBot._create_fallback_metadata\<close>. U+FF5C is the code point 65372.\<close>

definition create_fallback_metadata :: "unicode_db \<Rightarrow> pystr \<Rightarrow> pystr \<Rightarrow> metadata" where
  "create_fallback_metadata U video_path user_context =
     (let video_name = path_stem video_path;
          t1 = re_sub_tag U video_name;
          t2 = py_replace (str ''_'') (str '' '') (py_replace [65372, 65372] (str ''-'') t1);
          t3 = collapse_ws t2;
          t4 = sanitize_title t3;
          d = str ''Video: '' @ video_name
      in \<lparr>title = t4,
          description = (if user_context \<noteq> [] then d @ [10, 10] @ user_context else d)\<rparr>)"


section \<open>Metadata generation\<close>

text \<open>
  The text-generation collaborator is \<open>self.gemini_model\<close>: \<open>None\<close> when it could not be
  configured, otherwise an object whose \<open>generate_content(prompt).text\<close> gives a text or
  raises. The model takes it as a function from the prompt to a result.
\<close>

type_synonym gemini_model = "(pystr \<Rightarrow> py_error + pystr) option"

text \<open>The prompt of \<open>generate_metadata\<close>, an f-string; 34 is the double quote.\<close>

definition build_prompt :: "pystr \<Rightarrow> pystr \<Rightarrow> pystr" where
  "build_prompt video_name user_context =
     str ''Generate a YouTube video title and description for a video file named: '' @
     [34] @ video_name @ [34] @ [10, 10] @
     (if user_context \<noteq> [] then str ''Additional context: '' @ user_context else []) @
     [10, 10] @
     str ''Please provide:\<newline>'' @
     str ''1. An engaging, SEO-friendly title (max 100 characters)\<newline>'' @
     str ''2. A detailed description (200-300 words) that includes:\<newline>'' @
     str ''   - What the video is about\<newline>'' @
     str ''   - Key points or highlights\<newline>'' @
     str ''   - Relevant hashtags (3-5)\<newline>'' @
     [10] @
     str ''Format your response as:\<newline>'' @
     str ''TITLE: [your title here]\<newline>'' @
     str ''DESCRIPTION: [your description here]''"

text \<open>
  The two ways the response is cut into a raw title and a raw description: at the
  \<open>DESCRIPTION:\<close> marker when both markers occur, at the first line break otherwise.
\<close>

definition extract_sections :: "pystr \<Rightarrow> py_error + (pystr \<times> pystr)" where
  "extract_sections text =
     (if contains (str ''TITLE:'') text \<and> contains (str ''DESCRIPTION:'') text
      then
        (let parts = py_split (str ''DESCRIPTION:'') text
         in case index parts 0 of
              Inl e \<Rightarrow> Inl e
            | Inr p0 \<Rightarrow>
                (case index parts 1 of
                   Inl e \<Rightarrow> Inl e
                 | Inr p1 \<Rightarrow> Inr (strip (py_replace (str ''TITLE:'') [] p0), strip p1)))
      else
        (let lines = py_split [10] (strip text)
         in case index lines 0 of
              Inl e \<Rightarrow> Inl e
            | Inr l0 \<Rightarrow> Inr (strip l0, strip (py_join [10] (drop 1 lines)))))"

text \<open>\<open>title.replace('**', '').replace('*', '').strip()\<close>.\<close>

definition clean_title :: "pystr \<Rightarrow> pystr" where
  "clean_title t = strip (py_replace (str ''*'') [] (py_replace (str ''**'') [] t))"

text \<open>The body of the \<open>try\<close> block of \<open>generate_metadata\<close>.\<close>

definition generate_with_model ::
    "(pystr \<Rightarrow> py_error + pystr) \<Rightarrow> pystr \<Rightarrow> pystr \<Rightarrow> py_error + metadata" where
  "generate_with_model generate_content video_name user_context =
     (case generate_content (build_prompt video_name user_context) of
        Inl e \<Rightarrow> Inl e
      | Inr text \<Rightarrow>
          (case extract_sections text of
             Inl e \<Rightarrow> Inl e
           | Inr (t, d) \<Rightarrow>
               Inr \<lparr>title = sanitize_title (clean_title t),
                    description = (if d = [] then str ''Video: '' @ video_name else d)\<rparr>))"

text \<open>
  \<open>YouTubeBot.generate_metadata\<close>. The result is a sum so that "does not raise" is a
  statement about the function: \<open>Inl\<close> would be an exception leaving it.
\<close>

definition generate_metadata ::
    "unicode_db \<Rightarrow> gemini_model \<Rightarrow> pystr \<Rightarrow> pystr \<Rightarrow> py_error + metadata" where
  "generate_metadata U model video_path user_context =
     (let video_name = path_stem video_path
      in case model of
           None \<Rightarrow> Inr (create_fallback_metadata U video_path user_context)
         | Some generate_content \<Rightarrow>
             (case generate_with_model generate_content video_name user_context of
                Inr m \<Rightarrow> Inr m
              | Inl e \<Rightarrow> Inr (create_fallback_metadata U video_path user_context)))"

text \<open>Two stub collaborators for concrete runs: one answers with the empty text, one raises.\<close>

definition empty_reply :: "pystr \<Rightarrow> py_error + pystr" where
  "empty_reply prompt = Inr []"

definition failing_model :: "pystr \<Rightarrow> py_error + pystr" where
  "failing_model prompt = Inl OtherError"


section \<open>Dates and times\<close>

text \<open>
  A naive \<open>datetime\<close>, by its fields. Python compares two of them as the tuples of
  their fields, in this order.
\<close>

record datetime =
  year :: nat
  month :: nat
  day :: nat
  hour :: nat
  minute :: nat
  second :: nat
  microsecond :: nat

fun lex_le :: "nat list \<Rightarrow> nat list \<Rightarrow> bool" where
  "lex_le [] ys = True"
| "lex_le (x # xs) [] = False"
| "lex_le (x # xs) (y # ys) = (x < y \<or> (x = y \<and> lex_le xs ys))"

definition dt_fields :: "datetime \<Rightarrow> nat list" where
  "dt_fields d = [year d, month d, day d, hour d, minute d, second d, microsecond d]"

definition dt_le :: "datetime \<Rightarrow> datetime \<Rightarrow> bool" where
  "dt_le a b = lex_le (dt_fields a) (dt_fields b)"

section \<open>The transfer and its progress events\<close>

text \<open>
  What a call can do: return a value, raise, or not return at all. The last case is
  \<open>Blocked\<close>: the upload loop runs for as long as the stepper gives neither a result nor
  an exception.
\<close>

datatype 'a outcome = Returns 'a | Raises py_error | Blocked

text \<open>
  One call of \<open>request.next_chunk()\<close>. \<open>Chunk status now response\<close> returns the pair
  \<open>(status, response)\<close>: \<open>status\<close> is \<open>None\<close> or a progress object, given by the fraction
  its \<open>progress()\<close> returns; \<open>now\<close> is what \<open>time.time()\<close> reads in that iteration;
  \<open>response\<close> is \<open>None\<close> or the final dictionary, given by its entry for the key \<open>id\<close>
  (\<open>None\<close> when the key is missing). \<open>ChunkRaises\<close> is a call that raises. The stepper is
  the list of its calls; a list that ends without a response and without an exception is a
  stepper that does not answer any more.

  Clock readings and fractions are exact rationals; \<open>int(x)\<close> truncates towards zero.
\<close>

type_synonym response = "pystr option"

datatype chunk = Chunk "rat option" rat "response option" | ChunkRaises py_error

definition py_int :: "rat \<Rightarrow> int" where
  "py_int x = (if 0 \<le> x then \<lfloor>x\<rfloor> else \<lceil>x\<rceil>)"

text \<open>
  The \<open>while response is None\<close> loop of \<open>upload_video\<close>. The first component of the result
  is the list of the percentages printed as progress events, in order.
\<close>

fun upload_loop :: "rat \<Rightarrow> chunk list \<Rightarrow> int list \<times> response outcome" where
  "upload_loop last_progress_time [] = ([], Blocked)"
| "upload_loop last_progress_time (ChunkRaises e # rest) = ([], Raises e)"
| "upload_loop last_progress_time (Chunk st current_time response # rest) =
     (let progress_pct = (case st of None \<Rightarrow> 0 | Some f \<Rightarrow> py_int (f * 100));
          surfaced = (st \<noteq> None \<and>
            (current_time - last_progress_time \<ge> 2 \<or> progress_pct \<in> set [25, 50, 75, 100]));
          emitted = (if surfaced then [progress_pct] else []);
          last' = (if surfaced then current_time else last_progress_time)
      in case response of
           Some r \<Rightarrow> (emitted, Returns r)
         | None \<Rightarrow>
             (case upload_loop last' rest of (later, out) \<Rightarrow> (emitted @ later, out)))"

text \<open>The request handed to \<open>videos().insert\<close>: the \<open>body\<close> dictionary and the media file.\<close>

record insert_request =
  snippet_title :: pystr
  snippet_description :: pystr
  snippet_tags :: "pystr list"
  snippet_categoryId :: pystr
  status_privacyStatus :: pystr
  media_path :: pystr

text \<open>
  The world around one call of \<open>upload_video\<close>: whether \<open>os.path.exists\<close> finds the file,
  the generation collaborator, the first clock reading, and the transfer collaborator,
  which for a request either raises while the upload is set up (\<open>MediaFileUpload\<close>,
  \<open>insert\<close>) or gives a stepper.
\<close>

record upload_env =
  file_exists :: bool
  gemini :: gemini_model
  clock_start :: rat
  open_transfer :: "insert_request \<Rightarrow> py_error + chunk list"

text \<open>Python truthiness of an optional string, and \<open>x or y\<close>.\<close>

definition truthy :: "pystr option \<Rightarrow> bool" where
  "truthy x \<longleftrightarrow> x \<noteq> None \<and> x \<noteq> Some []"

definition py_or :: "pystr option \<Rightarrow> pystr \<Rightarrow> pystr" where
  "py_or x y = (case x of None \<Rightarrow> y | Some v \<Rightarrow> if v = [] then y else v)"

text \<open>
  The two \<open>except\<close> clauses of \<open>upload_video\<close>, for the exception \<open>e\<close> raised in the
  \<open>try\<close> block after the progress events \<open>events\<close>. Both return \<open>None\<close>. The clause
  for \<open>HttpError\<close> first prints \<open>e.resp.status\<close>: for an error without a response this
  raises \<open>AttributeError\<close> inside the handler, which the second clause does not catch, so
  it leaves \<open>upload_video\<close>.
\<close>

definition except_clauses :: "py_error \<Rightarrow> int list \<Rightarrow> (int list \<times> pystr option) outcome" where
  "except_clauses e events =
     (case e of
        HttpError None \<Rightarrow> Raises AttributeError
      | HttpError (Some st) \<Rightarrow> Returns (events, None)
      | _ \<Rightarrow> Returns (events, None))"

text \<open>
  \<open>YouTubeBot.upload_video\<close>. The result is the list of progress events and the returned
  video id (\<open>None\<close> for Python's \<open>None\<close>). A missing \<open>id\<close> in the response is a
  \<open>KeyError\<close> inside the \<open>try\<close> block, which the second \<open>except\<close> clause turns into
  \<open>None\<close>.
\<close>

definition upload_video ::
    "unicode_db \<Rightarrow> upload_env \<Rightarrow> pystr \<Rightarrow> pystr option \<Rightarrow> pystr option \<Rightarrow> pystr \<Rightarrow> pystr \<Rightarrow>
     pystr list \<Rightarrow> pystr \<Rightarrow> (int list \<times> pystr option) outcome" where
  "upload_video U env path title0 description0 category privacy0 tags0 ctx =
     (if \<not> file_exists env then Returns ([], None)
      else
        case (if \<not> truthy title0 \<or> \<not> truthy description0
              then (case generate_metadata U (gemini env) path ctx of
                      Inl e \<Rightarrow> Inl e
                    | Inr m \<Rightarrow> Inr (py_or title0 (title m), py_or description0 (description m)))
              else Inr (py_or title0 [], py_or description0 [])) of
          Inl e \<Rightarrow> Raises e
        | Inr (t, d) \<Rightarrow>
            (case open_transfer env
                    \<lparr>snippet_title = sanitize_title t, snippet_description = d,
                     snippet_tags = tags0, snippet_categoryId = category,
                     status_privacyStatus = privacy0, media_path = path\<rparr> of
               Inl e \<Rightarrow> except_clauses e []
             | Inr chunks \<Rightarrow>
                 (case upload_loop (clock_start env) chunks of
                    (events, Returns None) \<Rightarrow> Returns (events, None)
                  | (events, Returns (Some video_id)) \<Rightarrow> Returns (events, Some video_id)
                  | (events, Raises e) \<Rightarrow> except_clauses e events
                  | (events, Blocked) \<Rightarrow> Blocked)))"

section \<open>The scheduled uploads and the dispatcher\<close>

datatype status = Pending | Uploading | Completed | Failed

record ScheduledUpload =
  video_path :: pystr
  scheduled_time :: datetime
  privacy :: pystr
  tags :: "pystr list"
  user_context :: pystr
  upload_status :: status

text \<open>
  The bot holds a list of references to \<open>ScheduledUpload\<close> objects, which are mutable and
  compared by identity. A reference is a number, \<open>heap\<close> gives the object behind it, and
  \<open>next_ref\<close> is the first reference not yet handed out.
\<close>

record bot =
  heap :: "nat \<Rightarrow> ScheduledUpload"
  scheduled_uploads :: "nat list"
  next_ref :: nat

text \<open>\<open>ScheduledUpload.__init__\<close>, and a bot just constructed.\<close>

definition new_ScheduledUpload ::
    "pystr \<Rightarrow> datetime \<Rightarrow> pystr \<Rightarrow> pystr list \<Rightarrow> pystr \<Rightarrow> ScheduledUpload" where
  "new_ScheduledUpload path time privacy0 tags0 ctx =
     \<lparr>video_path = path, scheduled_time = time, privacy = privacy0, tags = tags0,
      user_context = ctx, upload_status = Pending\<rparr>"

definition initial_bot :: bot where
  "initial_bot =
     \<lparr>heap = (\<lambda>r. new_ScheduledUpload [] \<lparr>year = 1, month = 1, day = 1, hour = 0, minute = 0,
         second = 0, microsecond = 0\<rparr> [] [] []),
      scheduled_uploads = [], next_ref = 0\<rparr>"

text \<open>\<open>YouTubeBot.schedule_upload\<close>: the reference is appended.\<close>

definition schedule_upload :: "nat \<Rightarrow> bot \<Rightarrow> bot" where
  "schedule_upload r b = b\<lparr>scheduled_uploads := scheduled_uploads b @ [r]\<rparr>"

text \<open>
  Option 2 of the menu in \<open>main\<close>: a new \<open>ScheduledUpload\<close> object is constructed and
  scheduled.
\<close>

definition submit :: "bot \<Rightarrow> pystr \<Rightarrow> datetime \<Rightarrow> pystr \<Rightarrow> pystr list \<Rightarrow> pystr \<Rightarrow> bot" where
  "submit b path time privacy0 tags0 ctx =
     schedule_upload (next_ref b)
       (b\<lparr>heap := (heap b)(next_ref b := new_ScheduledUpload path time privacy0 tags0 ctx),
          next_ref := Suc (next_ref b)\<rparr>)"

text \<open>\<open>xs.remove(x)\<close>: the first occurrence goes, \<open>ValueError\<close> when there is none.\<close>

definition list_remove :: "'a list \<Rightarrow> 'a \<Rightarrow> py_error + 'a list" where
  "list_remove xs x = (if x \<in> set xs then Inr (remove1 x xs) else Inl ValueError)"

definition set_status :: "nat \<Rightarrow> status \<Rightarrow> bot \<Rightarrow> bot" where
  "set_status r s b = b\<lparr>heap := (heap b)(r := (heap b r)\<lparr>upload_status := s\<rparr>)\<rparr>"

text \<open>
  The body of the \<open>if\<close> in \<open>_scheduler_loop\<close>, for the entry behind \<open>r\<close>: the status
  becomes \<open>uploading\<close>, the upload runs, the status becomes \<open>completed\<close> or \<open>failed\<close>, and
  the entry is removed from the list.
\<close>

definition execute_entry :: "unicode_db \<Rightarrow> upload_env \<Rightarrow> nat \<Rightarrow> bot \<Rightarrow> bot outcome" where
  "execute_entry U env r b =
     (let upload = heap b r;
          b1 = set_status r Uploading b
      in case upload_video U env (video_path upload) None None (str ''22'') (privacy upload)
                (tags upload) (user_context upload) of
           Raises e \<Rightarrow> Raises e
         | Blocked \<Rightarrow> Blocked
         | Returns (events, video_id) \<Rightarrow>
             (let b2 = set_status r (if truthy video_id then Completed else Failed) b1
              in case list_remove (scheduled_uploads b2) r of
                   Inl e \<Rightarrow> Raises e
                 | Inr remaining \<Rightarrow> Returns (b2\<lparr>scheduled_uploads := remaining\<rparr>)))"

text \<open>
  One pass of the \<open>for\<close> loop over the copy \<open>self.scheduled_uploads[:]\<close>. \<open>world r\<close> is the
  world around the upload of the entry behind \<open>r\<close>.
\<close>

fun scan_entries ::
    "unicode_db \<Rightarrow> (nat \<Rightarrow> upload_env) \<Rightarrow> datetime \<Rightarrow> nat list \<Rightarrow> bot \<Rightarrow> bot outcome" where
  "scan_entries U world current_time [] b = Returns b"
| "scan_entries U world current_time (r # rest) b =
     (if upload_status (heap b r) = Pending \<and> dt_le (scheduled_time (heap b r)) current_time
      then (case execute_entry U (world r) r b of
              Returns b' \<Rightarrow> scan_entries U world current_time rest b'
            | Raises e \<Rightarrow> Raises e
            | Blocked \<Rightarrow> Blocked)
      else scan_entries U world current_time rest b)"

definition scan :: "unicode_db \<Rightarrow> (nat \<Rightarrow> upload_env) \<Rightarrow> datetime \<Rightarrow> bot \<Rightarrow> bot outcome" where
  "scan U world current_time b = scan_entries U world current_time (scheduled_uploads b) b"

text \<open>
  \<open>_scheduler_loop\<close>. Each round reads the flag \<open>scheduler_running\<close>, which the other
  thread sets, and the clock; a \<open>tick\<close> holds what the round finds. The loop is run for
  the rounds given: its result after them is the bot it has reached, unless a scan
  raised or is blocked in an upload.
\<close>

record tick =
  running :: bool
  clock :: datetime
  world_of :: "nat \<Rightarrow> upload_env"

fun scheduler_loop :: "unicode_db \<Rightarrow> tick list \<Rightarrow> bot \<Rightarrow> bot outcome" where
  "scheduler_loop U [] b = Returns b"
| "scheduler_loop U (t # ts) b =
     (if \<not> running t then Returns b
      else case scan U (world_of t) (clock t) b of
             Returns b' \<Rightarrow> scheduler_loop U ts b'
           | Raises e \<Rightarrow> Raises e
           | Blocked \<Rightarrow> Blocked)"

text \<open>
  The bots the program reaches between scans: it starts with no entry, the menu adds new
  entries, and the dispatcher scans.
\<close>

inductive reachable :: "unicode_db \<Rightarrow> bot \<Rightarrow> bool" for U :: unicode_db where
  start: "reachable U initial_bot"
| submitted: "reachable U b \<Longrightarrow> reachable U (submit b path time privacy0 tags0 ctx)"
| scanned: "reachable U b \<Longrightarrow> scan U world current_time b = Returns b' \<Longrightarrow> reachable U b'"

text \<open>
  The exception with which the transfer collaborator ends an upload, if it does: the one
  raised while the upload is set up, or by the first call of \<open>next_chunk\<close> that raises
  before any call has given the response.
\<close>

fun first_raise :: "chunk list \<Rightarrow> py_error option" where
  "first_raise [] = None"
| "first_raise (ChunkRaises e # rest) = Some e"
| "first_raise (Chunk st now (Some r) # rest) = None"
| "first_raise (Chunk st now None # rest) = first_raise rest"

definition transfer_error :: "py_error + chunk list \<Rightarrow> py_error option" where
  "transfer_error t = (case t of Inl e \<Rightarrow> Some e | Inr chunks \<Rightarrow> first_raise chunks)"

text \<open>
  A stub stepper for the scenario of the progress events: it reports the fractions 0.1,
  0.26, 0.5, 0.9 and 1.0 at the clock readings given, and then whatever \<open>rest\<close> says.
\<close>

definition five_reports :: "rat \<Rightarrow> rat \<Rightarrow> rat \<Rightarrow> rat \<Rightarrow> rat \<Rightarrow> chunk list" where
  "five_reports t1 t2 t3 t4 t5 =
     [Chunk (Some (1 / 10)) t1 None, Chunk (Some (26 / 100)) t2 None,
      Chunk (Some (1 / 2)) t3 None, Chunk (Some (9 / 10)) t4 None, Chunk (Some 1) t5 None]"


text \<open>Concrete worlds and a concrete bot, for the runs below.\<close>

definition raising_env :: upload_env where
  "raising_env =
     \<lparr>file_exists = True, gemini = None, clock_start = 0,
      open_transfer = (\<lambda>req. Inr [ChunkRaises (HttpError (Some 403))])\<rparr>"

definition no_response_env :: upload_env where
  "no_response_env =
     \<lparr>file_exists = True, gemini = None, clock_start = 0,
      open_transfer = (\<lambda>req. Inr [ChunkRaises (HttpError None)])\<rparr>"

definition missing_file_env :: upload_env where
  "missing_file_env =
     \<lparr>file_exists = False, gemini = None, clock_start = 0,
      open_transfer = (\<lambda>req. Inr [])\<rparr>"

definition noon :: datetime where
  "noon = \<lparr>year = 2025, month = 1, day = 15, hour = 12, minute = 0, second = 0,
           microsecond = 0\<rparr>"

definition demo_bot :: bot where
  "demo_bot = submit initial_bot (str ''a.mp4'') noon (str ''private'') [] []"


text \<open>
  The end of the \<open>try\<close> block of \<open>upload_video\<close>, as a function of what the loop gave:
  the case distinction of \<open>upload_video\<close> under a name, for the proofs.
\<close>

definition finish_upload :: "int list \<times> response outcome \<Rightarrow> (int list \<times> pystr option) outcome" where
  "finish_upload x =
     (case x of
        (events, Returns None) \<Rightarrow> Returns (events, None)
      | (events, Returns (Some video_id)) \<Rightarrow> Returns (events, Some video_id)
      | (events, Raises e) \<Rightarrow> except_clauses e events
      | (events, Blocked) \<Rightarrow> Blocked)"


text \<open>
  Names for the proofs about the dispatcher. \<open>settle r s b\<close> is the bot after the entry
  behind \<open>r\<close> was executed with the final status \<open>s\<close>. \<open>registry_ok b\<close> is the
  invariant of the list between two entries: no reference twice, every entry pending and
  allocated.
\<close>

definition settle :: "nat \<Rightarrow> status \<Rightarrow> bot \<Rightarrow> bot" where
  "settle r s b =
     (set_status r s (set_status r Uploading b))\<lparr>scheduled_uploads := remove1 r (scheduled_uploads b)\<rparr>"

definition registry_ok :: "bot \<Rightarrow> bool" where
  "registry_ok b \<longleftrightarrow>
     distinct (scheduled_uploads b) \<and>
     list_all (\<lambda>q. upload_status (heap b q) = Pending \<and> q < next_ref b) (scheduled_uploads b)"

text \<open>Worlds in which every upload meets \<open>raising_env\<close>, or \<open>no_response_env\<close>.\<close>

definition raising_world :: "nat \<Rightarrow> upload_env" where
  "raising_world r = raising_env"

definition no_response_world :: "nat \<Rightarrow> upload_env" where
  "no_response_world r = no_response_env"


section \<open>The time expression parser\<close>

text \<open>
  \<open>s.lower()\<close>: an ASCII string is lowered letter by letter; for any other string the
  Unicode tables decide.
\<close>

definition ascii_lower :: "nat \<Rightarrow> nat" where
  "ascii_lower c = (if 65 \<le> c \<and> c \<le> 90 then c + 32 else c)"

definition py_lower :: "unicode_db \<Rightarrow> pystr \<Rightarrow> pystr" where
  "py_lower U s = (if list_all (\<lambda>c. c < 128) s then map ascii_lower s else u_lower U s)"

text \<open>
  \<open>datetime.strptime\<close> turns the format into a regular expression, takes the first match
  at the start of the string, and raises \<open>ValueError\<close> when there is none or when the match
  does not reach the end of the string. A piece of such an expression is modelled by the
  list of its matches at the head of a string, in the order in which the backtracking
  matcher finds them, each with the value read and the rest of the string; \<open>then_p\<close> puts
  one piece behind another.
\<close>

definition then_p ::
    "('a \<times> pystr) list \<Rightarrow> ('a \<Rightarrow> pystr \<Rightarrow> ('b \<times> pystr) list) \<Rightarrow> ('b \<times> pystr) list" where
  "then_p ms k = concat (map (\<lambda>(v, r). k v r) ms)"

definition finish :: "('a \<times> pystr) list \<Rightarrow> py_error + 'a" where
  "finish ms =
     (case ms of
        [] \<Rightarrow> Inl ValueError
      | (v, rest) # others \<Rightarrow> if rest = [] then Inr v else Inl ValueError)"

text \<open>
  The value of a decimal digit (the class \<open>\d\<close>, read by \<open>int\<close>), a digit of an ASCII
  range such as \<open>[0-5]\<close>, two digits in a row, a literal character, \<open>\s+\<close> (the longest
  run first), and \<open>am|pm\<close> without regard to case.
\<close>

definition digit_val :: "unicode_db \<Rightarrow> nat \<Rightarrow> nat option" where
  "digit_val U c =
     (if 48 \<le> c \<and> c \<le> 57 then Some (c - 48) else if c < 128 then None else u_digit U c)"

definition d_any :: "unicode_db \<Rightarrow> pystr \<Rightarrow> (nat \<times> pystr) list" where
  "d_any U s =
     (case s of
        [] \<Rightarrow> []
      | c # cs \<Rightarrow> (case digit_val U c of None \<Rightarrow> [] | Some v \<Rightarrow> [(v, cs)]))"

definition d_in :: "nat \<Rightarrow> nat \<Rightarrow> pystr \<Rightarrow> (nat \<times> pystr) list" where
  "d_in lo hi s =
     (case s of
        [] \<Rightarrow> []
      | c # cs \<Rightarrow> if 48 + lo \<le> c \<and> c \<le> 48 + hi then [(c - 48, cs)] else [])"

definition two_digits ::
    "(pystr \<Rightarrow> (nat \<times> pystr) list) \<Rightarrow> (pystr \<Rightarrow> (nat \<times> pystr) list) \<Rightarrow> pystr \<Rightarrow>
     (nat \<times> pystr) list" where
  "two_digits p q s = then_p (p s) (\<lambda>a r. then_p (q r) (\<lambda>b r'. [(10 * a + b, r')]))"

definition lit :: "nat \<Rightarrow> pystr \<Rightarrow> (unit \<times> pystr) list" where
  "lit c s = (case s of [] \<Rightarrow> [] | x # xs \<Rightarrow> if x = c then [((), xs)] else [])"

definition spaces1 :: "pystr \<Rightarrow> (unit \<times> pystr) list" where
  "spaces1 s = map (\<lambda>k. ((), drop k s)) (rev [1..<Suc (length (takeWhile isspace s))])"

datatype meridiem = AM | PM

definition re_p :: "pystr \<Rightarrow> (meridiem \<times> pystr) list" where
  "re_p s =
     (case s of
        a # b # r \<Rightarrow>
          if (a = 97 \<or> a = 65) \<and> (b = 109 \<or> b = 77) then [(AM, r)]
          else if (a = 112 \<or> a = 80) \<and> (b = 109 \<or> b = 77) then [(PM, r)]
          else []
      | _ \<Rightarrow> [])"

text \<open>
  The directives, as \<open>_strptime\<close> defines them:
  \<open>%H\<close> is \<open>2[0-3]|[0-1]\d|\d\<close>, \<open>%I\<close> and \<open>%m\<close> are \<open>1[0-2]|0[1-9]|[1-9]\<close>,
  \<open>%M\<close> is \<open>[0-5]\d|\d\<close>, \<open>%Y\<close> is \<open>\d\d\d\d\<close>, and
  \<open>%d\<close> is \<open>3[0-1]|[1-2]\d|0[1-9]|[1-9]| [1-9]\<close>.
\<close>

definition re_H :: "unicode_db \<Rightarrow> pystr \<Rightarrow> (nat \<times> pystr) list" where
  "re_H U s =
     two_digits (d_in 2 2) (d_in 0 3) s @ two_digits (d_in 0 1) (d_any U) s @ d_any U s"

definition re_I :: "pystr \<Rightarrow> (nat \<times> pystr) list" where
  "re_I s = two_digits (d_in 1 1) (d_in 0 2) s @ two_digits (d_in 0 0) (d_in 1 9) s @ d_in 1 9 s"

definition re_M :: "unicode_db \<Rightarrow> pystr \<Rightarrow> (nat \<times> pystr) list" where
  "re_M U s = two_digits (d_in 0 5) (d_any U) s @ d_any U s"

definition re_Y :: "unicode_db \<Rightarrow> pystr \<Rightarrow> (nat \<times> pystr) list" where
  "re_Y U s =
     then_p (d_any U s) (\<lambda>a r. then_p (d_any U r) (\<lambda>b r. then_p (d_any U r) (\<lambda>c r.
       then_p (d_any U r) (\<lambda>d r. [(1000 * a + 100 * b + 10 * c + d, r)]))))"

definition re_d :: "unicode_db \<Rightarrow> pystr \<Rightarrow> (nat \<times> pystr) list" where
  "re_d U s =
     two_digits (d_in 3 3) (d_in 0 1) s @ two_digits (d_in 1 2) (d_any U) s @
     two_digits (d_in 0 0) (d_in 1 9) s @ d_in 1 9 s @
     then_p (lit 32 s) (\<lambda>u r. d_in 1 9 r)"

text \<open>The hour of a 12-hour clock reading, as \<open>_strptime\<close> computes it.\<close>

definition hour12 :: "nat \<Rightarrow> meridiem \<Rightarrow> nat" where
  "hour12 h p = (case p of AM \<Rightarrow> if h = 12 then 0 else h | PM \<Rightarrow> if h \<noteq> 12 then h + 12 else h)"

text \<open>
  \<open>strptime\<close> for the four time formats of the source; the result is the pair of
  \<open>time_obj.hour\<close> and \<open>time_obj.minute\<close>.
\<close>

definition strptime_H_M :: "unicode_db \<Rightarrow> pystr \<Rightarrow> py_error + (nat \<times> nat)" where
  "strptime_H_M U s =
     finish (then_p (re_H U s) (\<lambda>h r. then_p (lit 58 r) (\<lambda>u r. then_p (re_M U r) (\<lambda>m r.
       [((h, m), r)]))))"

definition strptime_H :: "unicode_db \<Rightarrow> pystr \<Rightarrow> py_error + (nat \<times> nat)" where
  "strptime_H U s = finish (then_p (re_H U s) (\<lambda>h r. [((h, 0), r)]))"

definition strptime_I_M_p :: "unicode_db \<Rightarrow> pystr \<Rightarrow> py_error + (nat \<times> nat)" where
  "strptime_I_M_p U s =
     finish (then_p (re_I s) (\<lambda>h r. then_p (lit 58 r) (\<lambda>u r. then_p (re_M U r) (\<lambda>m r.
       then_p (spaces1 r) (\<lambda>u r. then_p (re_p r) (\<lambda>p r. [((hour12 h p, m), r)]))))))"

definition strptime_I_p :: "pystr \<Rightarrow> py_error + (nat \<times> nat)" where
  "strptime_I_p s =
     finish (then_p (re_I s) (\<lambda>h r. then_p (spaces1 r) (\<lambda>u r. then_p (re_p r) (\<lambda>p r.
       [((hour12 h p, 0), r)]))))"

text \<open>The calendar: what the \<open>date\<close> constructor accepts, and the ordinal of a date.\<close>

definition is_leap :: "nat \<Rightarrow> bool" where
  "is_leap y \<longleftrightarrow> y mod 4 = 0 \<and> (y mod 100 \<noteq> 0 \<or> y mod 400 = 0)"

definition days_in_month :: "nat \<Rightarrow> nat \<Rightarrow> nat" where
  "days_in_month y m =
     (if m = 2 then (if is_leap y then 29 else 28)
      else if m = 4 \<or> m = 6 \<or> m = 9 \<or> m = 11 then 30 else 31)"

definition valid_date :: "nat \<Rightarrow> nat \<Rightarrow> nat \<Rightarrow> bool" where
  "valid_date y m d \<longleftrightarrow>
     1 \<le> y \<and> y \<le> 9999 \<and> 1 \<le> m \<and> m \<le> 12 \<and> 1 \<le> d \<and> d \<le> days_in_month y m"

definition days_before_year :: "nat \<Rightarrow> nat" where
  "days_before_year y = 365 * (y - 1) + (y - 1) div 4 + (y - 1) div 400 - (y - 1) div 100"

definition days_before_month :: "nat \<Rightarrow> nat \<Rightarrow> nat" where
  "days_before_month y m =
     [0, 31, 59, 90, 120, 151, 181, 212, 243, 273, 304, 334] ! (m - 1) +
     (if m > 2 \<and> is_leap y then 1 else 0)"

definition toordinal :: "datetime \<Rightarrow> nat" where
  "toordinal t = days_before_year (year t) + days_before_month (year t) (month t) + day t"

text \<open>
  The microseconds from the start of day 0 to a \<open>datetime\<close>: the scale on which
  \<open>timedelta\<close> measures the distance of two of them.
\<close>

definition timeline :: "datetime \<Rightarrow> nat" where
  "timeline t =
     (((toordinal t * 24 + hour t) * 60 + minute t) * 60 + second t) * 1000000 + microsecond t"

text \<open>
  \<open>strptime(date_part, '%Y-%m-%d')\<close>: the date read must exist; the time of the result is
  midnight.
\<close>

definition strptime_Y_m_d :: "unicode_db \<Rightarrow> pystr \<Rightarrow> py_error + datetime" where
  "strptime_Y_m_d U s =
     (case finish (then_p (re_Y U s) (\<lambda>y r. then_p (lit 45 r) (\<lambda>u r. then_p (re_I r) (\<lambda>m r.
             then_p (lit 45 r) (\<lambda>u r. then_p (re_d U r) (\<lambda>d r. [((y, m, d), r)])))))) of
        Inl e \<Rightarrow> Inl e
      | Inr (y, m, d) \<Rightarrow>
          if valid_date y m d
          then Inr \<lparr>year = y, month = m, day = d, hour = 0, minute = 0, second = 0,
                   microsecond = 0\<rparr>
          else Inl ValueError)"

text \<open>
  \<open>result += timedelta(days=1)\<close>: the same time on the date whose ordinal is one more,
  written as the next date of the calendar; \<open>OverflowError\<close> after 9999-12-31.
\<close>

definition add_one_day :: "datetime \<Rightarrow> py_error + datetime" where
  "add_one_day t =
     (if day t < days_in_month (year t) (month t) then Inr (t\<lparr>day := day t + 1\<rparr>)
      else if month t < 12 then Inr (t\<lparr>month := month t + 1, day := 1\<rparr>)
      else if year t < 9999 then Inr (t\<lparr>year := year t + 1, month := 1, day := 1\<rparr>)
      else Inl OverflowError)"

text \<open>
  The part of \<open>parse_schedule_time\<close> that both branches share word for word: a time with
  \<open>am\<close> or \<open>pm\<close>.
\<close>

definition parse_am_pm :: "unicode_db \<Rightarrow> pystr \<Rightarrow> py_error + (nat \<times> nat)" where
  "parse_am_pm U t =
     (let t' = py_replace (str ''pm'') (str '' PM'') (py_replace (str ''am'') (str '' AM'') t)
      in if 58 \<in> set t' then strptime_I_M_p U (strip t') else strptime_I_p (strip t'))"

text \<open>The \<open>try\<close> block of \<open>parse_schedule_time\<close>; \<open>now\<close> is \<open>datetime.now()\<close>.\<close>

definition parse_body :: "unicode_db \<Rightarrow> datetime \<Rightarrow> pystr \<Rightarrow> py_error + datetime" where
  "parse_body U now time_str =
     (if 32 \<in> set time_str
      then
        (let date_part = takeWhile (\<lambda>c. c \<noteq> 32) time_str;
             time_part = drop 1 (dropWhile (\<lambda>c. c \<noteq> 32) time_str)
         in case strptime_Y_m_d U date_part of
              Inl e \<Rightarrow> Inl e
            | Inr date_obj \<Rightarrow>
                (case (if contains (str ''am'') time_part \<or> contains (str ''pm'') time_part
                       then parse_am_pm U time_part
                       else strptime_H_M U (strip time_part)) of
                   Inl e \<Rightarrow> Inl e
                 | Inr (h, m) \<Rightarrow> Inr (date_obj\<lparr>hour := h, minute := m, second := 0\<rparr>)))
      else
        (case (if contains (str ''am'') time_str \<or> contains (str ''pm'') time_str
               then parse_am_pm U time_str
               else if 58 \<in> set time_str then strptime_H_M U (strip time_str)
               else strptime_H U (strip time_str)) of
           Inl e \<Rightarrow> Inl e
         | Inr (h, m) \<Rightarrow>
             (let result = now\<lparr>hour := h, minute := m, second := 0, microsecond := 0\<rparr>
              in if dt_le result now then add_one_day result else Inr result)))"

text \<open>\<open>parse_schedule_time\<close>: \<open>None\<close> is the result of the \<open>except\<close> clause.\<close>

definition parse_schedule_time :: "unicode_db \<Rightarrow> datetime \<Rightarrow> pystr \<Rightarrow> datetime option" where
  "parse_schedule_time U now time_str =
     (case parse_body U now (py_lower U (strip time_str)) of
        Inl e \<Rightarrow> None
      | Inr result \<Rightarrow> Some result)"

text \<open>
  The phrases of the grammar the specification states, and what they denote. A time is
  \<open>H[:MM]\<close> followed by \<open>am\<close> or \<open>pm\<close>, with the hour from 1 to 12 written without a leading
  zero, or \<open>HH:MM\<close> on the 24-hour clock; a date is \<open>YYYY-MM-DD\<close>. \<open>dec2\<close> writes two
  digits, \<open>dec\<close> writes a number below 100 without a leading zero.
\<close>

definition dec2 :: "nat \<Rightarrow> pystr" where
  "dec2 n = [48 + n div 10, 48 + n mod 10]"

definition dec :: "nat \<Rightarrow> pystr" where
  "dec n = (if n < 10 then [48 + n] else dec2 n)"

definition dec4 :: "nat \<Rightarrow> pystr" where
  "dec4 n = [48 + n div 1000, 48 + n div 100 mod 10, 48 + n div 10 mod 10, 48 + n mod 10]"

datatype time_phrase = Clock12 nat "nat option" meridiem | Clock24 nat nat

definition meridiem_text :: "meridiem \<Rightarrow> pystr" where
  "meridiem_text p = (case p of AM \<Rightarrow> str ''am'' | PM \<Rightarrow> str ''pm'')"

fun time_text :: "time_phrase \<Rightarrow> pystr" where
  "time_text (Clock12 h None p) = dec h @ meridiem_text p"
| "time_text (Clock12 h (Some m) p) = dec h @ str '':'' @ dec2 m @ meridiem_text p"
| "time_text (Clock24 h m) = dec2 h @ str '':'' @ dec2 m"

text \<open>The same phrases with a space before \<open>am\<close> or \<open>pm\<close>, as in \<open>9 am\<close>.\<close>

fun spaced_text :: "time_phrase \<Rightarrow> pystr" where
  "spaced_text (Clock12 h None p) = dec h @ str '' '' @ meridiem_text p"
| "spaced_text (Clock12 h (Some m) p) = dec h @ str '':'' @ dec2 m @ str '' '' @ meridiem_text p"
| "spaced_text (Clock24 h m) = dec2 h @ str '':'' @ dec2 m"

fun valid_phrase :: "time_phrase \<Rightarrow> bool" where
  "valid_phrase (Clock12 h None p) = (1 \<le> h \<and> h \<le> 12)"
| "valid_phrase (Clock12 h (Some m) p) = (1 \<le> h \<and> h \<le> 12 \<and> m < 60)"
| "valid_phrase (Clock24 h m) = (h < 24 \<and> m < 60)"

fun hour_of :: "time_phrase \<Rightarrow> nat" where
  "hour_of (Clock12 h m p) = hour12 h p"
| "hour_of (Clock24 h m) = h"

fun minute_of :: "time_phrase \<Rightarrow> nat" where
  "minute_of (Clock12 h None p) = 0"
| "minute_of (Clock12 h (Some m) p) = m"
| "minute_of (Clock24 h m) = m"

definition date_text :: "nat \<Rightarrow> nat \<Rightarrow> nat \<Rightarrow> pystr" where
  "date_text y m d = dec4 y @ str ''-'' @ dec2 m @ str ''-'' @ dec2 d"

text \<open>A \<open>datetime\<close> object holds an existing date and a time of day.\<close>

definition valid_datetime :: "datetime \<Rightarrow> bool" where
  "valid_datetime t \<longleftrightarrow>
     valid_date (year t) (month t) (day t) \<and> hour t < 24 \<and> minute t < 60 \<and> second t < 60 \<and>
     microsecond t < 1000000"

text \<open>The moment the same day at which a phrase points: today, its hour and minute.\<close>

definition same_day :: "datetime \<Rightarrow> time_phrase \<Rightarrow> datetime" where
  "same_day now p = now\<lparr>hour := hour_of p, minute := minute_of p, second := 0, microsecond := 0\<rparr>"

text \<open>Names for the proofs about the parser: the characters of a phrase.\<close>

definition phrase_char :: "nat \<Rightarrow> bool" where
  "phrase_char c \<longleftrightarrow> (48 \<le> c \<and> c \<le> 58) \<or> c = 45 \<or> c = 97 \<or> c = 109 \<or> c = 112"

definition plain_char :: "nat \<Rightarrow> bool" where
  "plain_char c \<longleftrightarrow> (48 \<le> c \<and> c \<le> 58) \<or> c = 45"

definition upper_text :: "meridiem \<Rightarrow> pystr" where
  "upper_text p = (case p of AM \<Rightarrow> [65, 77] | PM \<Rightarrow> [80, 77])"

text \<open>
  The last date a \<open>datetime\<close> can hold, 9999-12-31, and its evening at 18:00, for a
  concrete run.
\<close>

definition last_day :: "datetime \<Rightarrow> bool" where
  "last_day t \<longleftrightarrow> year t = 9999 \<and> month t = 12 \<and> day t = 31"

definition last_evening :: datetime where
  "last_evening = \<lparr>year = 9999, month = 12, day = 31, hour = 18, minute = 0, second = 0,
                   microsecond = 0\<rparr>"


section \<open>Properties of whitespace normalisation\<close>

text \<open>
  A word is a non-empty run without whitespace. \<open>split_ws\<close> returns words only, and
  splitting a join of words gives the words back; so a joined list of words is a fixed
  point of \<open>collapse_ws\<close>.
\<close>

lemma split_scan_word:
  "list_all (\<lambda>c. \<not> isspace c) w \<Longrightarrow> split_scan cur (w @ rest) = split_scan (cur @ w) rest"
  by (induction w arbitrary: cur) auto

lemma isspace_32: "isspace 32" by (simp add: isspace_def)

lemma split_join:
  "list_all word_ok ws \<Longrightarrow> split_scan [] (py_join [32] ws) = ws"
proof (induction ws)
  case Nil then show ?case by simp
next
  case (Cons x xs)
  from Cons.prems have wx: "word_ok x" and xs: "list_all word_ok xs" by simp_all
  from wx have x: "x \<noteq> []" "list_all (\<lambda>c. \<not> isspace c) x"
    by (simp_all add: word_ok_def)
  show ?case
  proof (cases xs)
    case Nil
    then show ?thesis using split_scan_word[OF x(2), of "[]" "[]"] x(1) by simp
  next
    case (Cons y ys)
    have "split_scan [] (x @ 32 # py_join [32] xs) = split_scan x (32 # py_join [32] xs)"
      using split_scan_word[OF x(2), of "[]"] by simp
    also have "\<dots> = x # split_scan [] (py_join [32] xs)"
      using x(1) by (simp add: isspace_32)
    finally show ?thesis using Cons.IH[OF xs] Cons by simp
  qed
qed

lemma split_scan_ok:
  "list_all (\<lambda>c. \<not> isspace c) cur \<Longrightarrow> list_all word_ok (split_scan cur s)"
  by (induction s arbitrary: cur) (auto simp: word_ok_def)

lemma split_ws_ok: "list_all word_ok (split_ws s)"
  by (simp add: split_ws_def split_scan_ok)

lemma str_space: "str '' '' = [32]" by (simp add: str_def)

lemma collapse_join: "list_all word_ok ws \<Longrightarrow> collapse_ws (py_join [32] ws) = py_join [32] ws"
  by (simp add: collapse_ws_def split_ws_def split_join str_space)

lemma collapse_idem: "collapse_ws (collapse_ws s) = collapse_ws s"
  using collapse_join[OF split_ws_ok[of s]] by (simp add: collapse_ws_def str_space)


lemma split_scan_lead: "split_scan [] (dropWhile isspace s) = split_scan [] s"
  by (induction s) auto

lemma split_scan_spaces:
  "list_all isspace b \<Longrightarrow> split_scan cur b = (if cur = [] then [] else [cur])"
  by (induction b arbitrary: cur) auto

lemma split_scan_trail:
  "list_all isspace b \<Longrightarrow> split_scan cur (a @ b) = split_scan cur a"
  by (induction a arbitrary: cur) (auto simp: split_scan_spaces)

lemma rev_dropWhile_decomp:
  "s = rev (dropWhile P (rev s)) @ rev (takeWhile P (rev s))"
proof -
  have "rev (takeWhile P (rev s) @ dropWhile P (rev s)) =
        rev (dropWhile P (rev s)) @ rev (takeWhile P (rev s))" by (rule rev_append)
  then show ?thesis by (simp only: takeWhile_dropWhile_id rev_rev_ident)
qed

lemma split_scan_rstrip:
  "split_scan cur (rev (dropWhile isspace (rev s))) = split_scan cur s"
proof -
  have b: "list_all isspace (rev (takeWhile isspace (rev s)))"
    by (simp add: list_all_iff) (meson set_takeWhileD)
  show ?thesis
    using split_scan_trail[OF b, of cur "rev (dropWhile isspace (rev s))"]
          rev_dropWhile_decomp[of s isspace] by simp
qed

lemma collapse_strip: "collapse_ws (strip s) = collapse_ws s"
  by (simp add: collapse_ws_def split_ws_def strip_def split_scan_rstrip split_scan_lead)

lemma dots_ok: "word_ok [46, 46, 46]"
  by (simp add: word_ok_def isspace_def)

lemma word_ok_take_dots:
  "list_all (\<lambda>c. \<not> isspace c) x \<Longrightarrow> word_ok (take n x @ [46, 46, 46])"
  by (auto simp: word_ok_def isspace_def list_all_iff dest: in_set_takeD)

lemma truncate_normal:
  "list_all word_ok ws \<Longrightarrow>
   \<exists>ws'. list_all word_ok ws' \<and> ws' \<noteq> [] \<and> take n (py_join [32] ws) @ [46, 46, 46] = py_join [32] ws'"
proof (induction ws arbitrary: n)
  case Nil
  have "list_all word_ok [[46, 46, 46]] \<and> [[46, 46, 46]] \<noteq> [] \<and>
        take n (py_join [32] []) @ [46, 46, 46] = py_join [32] [[46, 46, 46]]"
    using dots_ok by simp
  then show ?case by blast
next
  case (Cons x xs)
  from Cons.prems have wx: "word_ok x" and xs: "list_all word_ok xs" by simp_all
  from wx have x: "list_all (\<lambda>c. \<not> isspace c) x" by (simp add: word_ok_def)
  have single: "list_all word_ok [take n x @ [46, 46, 46]] \<and> [take n x @ [46, 46, 46]] \<noteq> [] \<and>
       take n x @ [46, 46, 46] = py_join [32] [take n x @ [46, 46, 46]]"
    using word_ok_take_dots[OF x] by simp
  show ?case
  proof (cases xs)
    case Nil
    then show ?thesis using single by (intro exI[of _ "[take n x @ [46, 46, 46]]"]) simp
  next
    case (Cons y ys)
    then have j: "py_join [32] (x # xs) = x @ 32 # py_join [32] xs" by simp
    show ?thesis
    proof (cases "n \<le> length x")
      case True
      then have "take n (py_join [32] (x # xs)) = take n x" by (simp add: j)
      then show ?thesis using single by (intro exI[of _ "[take n x @ [46, 46, 46]]"]) simp
    next
      case False
      then obtain k where k: "n - length x = Suc k" by (cases "n - length x") auto
      from Cons.IH[OF xs, of k] obtain ws' where
        ws': "list_all word_ok ws'" "ws' \<noteq> []"
             "take k (py_join [32] xs) @ [46, 46, 46] = py_join [32] ws'" by blast
      from ws'(2) obtain z zs where z: "ws' = z # zs" by (cases ws') auto
      have "take n (py_join [32] (x # xs)) @ [46, 46, 46] = x @ 32 # py_join [32] ws'"
        using False k ws'(3) by (simp add: j)
      also have "\<dots> = py_join [32] (x # ws')" by (simp add: z)
      finally show ?thesis using wx ws'(1) by (intro exI[of _ "x # ws'"]) simp
    qed
  qed
qed

lemma str_dots: "str ''...'' = [46, 46, 46]" by (simp add: str_def)

lemma sanitize_fixed:
  assumes "list_all word_ok ws" "r = py_join [32] ws" "r \<noteq> []" "length r \<le> 100"
  shows "sanitize_title r = r"
  using assms collapse_join[OF assms(1)]
  by (simp add: sanitize_title_def collapse_strip MAX_TITLE_LENGTH_def Let_def)

lemma untitled_fixed: "sanitize_title (str ''Untitled Video'') = str ''Untitled Video''"
proof -
  have "list_all word_ok [str ''Untitled'', str ''Video'']"
    by (simp add: word_ok_def str_def isspace_def)
  moreover have "str ''Untitled Video'' = py_join [32] [str ''Untitled'', str ''Video'']"
    by (simp add: str_def)
  ultimately show ?thesis
    by (rule sanitize_fixed) (simp_all add: str_def)
qed


section \<open>Properties of title sanitization\<close>

text \<open>
  C8. Title sanitization is idempotent: for every input string, sanitizing twice gives the
  same result as sanitizing once.
\<close>

theorem sanitize_title_idempotent: "sanitize_title (sanitize_title t) = sanitize_title t"
proof -
  define c where "c = collapse_ws (strip t)"
  have "c = collapse_ws t" by (simp add: c_def collapse_strip)
  then have cj: "c = py_join [32] (split_ws t)" by (simp add: collapse_ws_def str_space)
  have ok: "list_all word_ok (split_ws t)" by (rule split_ws_ok)
  consider (long) "length c > 100" | (empty) "c = []" | (keep) "c \<noteq> []" "length c \<le> 100"
    by fastforce
  then show ?thesis
  proof cases
    case long
    then have r: "sanitize_title t = take 97 c @ [46, 46, 46]"
      by (simp add: sanitize_title_def c_def[symmetric] MAX_TITLE_LENGTH_def Let_def str_dots)
    from truncate_normal[OF ok, of 97] obtain ws' where
      ws': "list_all word_ok ws'" "take 97 c @ [46, 46, 46] = py_join [32] ws'"
      by (auto simp: cj)
    have ne: "take 97 c @ [46, 46, 46] \<noteq> []" by simp
    have le: "length (take 97 c @ [46, 46, 46]) \<le> 100" using long by simp
    have "sanitize_title (take 97 c @ [46, 46, 46]) = take 97 c @ [46, 46, 46]"
      by (rule sanitize_fixed[OF ws'(1) ws'(2) ne le])
    then show ?thesis by (simp add: r)
  next
    case empty
    then have "sanitize_title t = str ''Untitled Video''"
      by (simp add: sanitize_title_def c_def[symmetric] MAX_TITLE_LENGTH_def Let_def)
    then show ?thesis by (simp add: untitled_fixed)
  next
    case keep
    then have r: "sanitize_title t = c"
      by (simp add: sanitize_title_def c_def[symmetric] MAX_TITLE_LENGTH_def Let_def)
    have "sanitize_title c = c"
      using keep by (intro sanitize_fixed[OF ok cj]) simp_all
    then show ?thesis by (simp add: r)
  qed
qed


text \<open>
  C7, as stated, fails: a title of 101 spaces is longer than 100 units, but it is
  whitespace only, so it is stripped to the empty string and becomes the placeholder
  (14 units, no ellipsis).
\<close>

theorem sanitize_title_long_blank_counterexample:
  "length (replicate 101 (32::nat)) > 100 \<and>
   sanitize_title (replicate 101 32) = str ''Untitled Video'' \<and>
   length (sanitize_title (replicate 101 32)) = 14"
  by (simp add: sanitize_title_def strip_def collapse_ws_def split_ws_def isspace_def
      MAX_TITLE_LENGTH_def str_def)

text \<open>
  C7, amended. The length that matters is that of the title after stripping and whitespace
  collapsing: whenever that normalised title is longer than 100 units, the sanitized title
  has exactly 100 units and ends with \<open>...\<close>.
\<close>

theorem sanitize_title_truncates:
  assumes "length (collapse_ws (strip t)) > 100"
  shows "length (sanitize_title t) = 100 \<and> suffix (str ''...'') (sanitize_title t)"
  using assms
  by (simp add: sanitize_title_def MAX_TITLE_LENGTH_def Let_def str_dots suffix_def)

theorem sanitize_title_truncates_witness:
  "length (collapse_ws (strip (replicate 101 97))) > 100 \<and>
   length (sanitize_title (replicate 101 97)) = 100 \<and>
   suffix (str ''...'') (sanitize_title (replicate 101 97))"
proof -
  have ok: "list_all word_ok [replicate 101 97]"
    by (simp add: word_ok_def isspace_def list_all_iff)
  have "collapse_ws (strip (replicate 101 97)) = replicate 101 97"
    using collapse_join [OF ok] by (simp add: collapse_strip)
  then have h: "length (collapse_ws (strip (replicate 101 97))) > 100"
    by simp
  show ?thesis
    using h sanitize_title_truncates [OF h] by simp
qed


section \<open>Properties of metadata generation\<close>

lemmas title_eval_defs =
  sanitize_title_def strip_def collapse_ws_def split_ws_def isspace_def MAX_TITLE_LENGTH_def
  str_def Let_def

lemmas fallback_eval_defs =
  create_fallback_metadata_def path_stem_def path_name_def py_split_def rfind_def
  match_tag_def tag_char_def is_word_def

text \<open>
  C9. For the file name \<open>Sunset Timelapse [raw].mp4\<close>, with no generation collaborator and
  an empty user context, metadata generation returns the fallback metadata; its title is
  \<open>Sunset Timelapse\<close> and its description begins with \<open>Video: Sunset Timelapse [raw]\<close>.
\<close>

theorem fallback_sunset_timelapse:
  "generate_metadata U None (str ''Sunset Timelapse [raw].mp4'') [] =
     Inr (create_fallback_metadata U (str ''Sunset Timelapse [raw].mp4'') []) \<and>
   title (create_fallback_metadata U (str ''Sunset Timelapse [raw].mp4'') []) =
     str ''Sunset Timelapse'' \<and>
   prefix (str ''Video: Sunset Timelapse [raw]'')
     (description (create_fallback_metadata U (str ''Sunset Timelapse [raw].mp4'') []))"
  by (simp add: generate_metadata_def fallback_eval_defs title_eval_defs)

text \<open>
  C3, as stated, fails in its last case: when the collaborator answers and the title
  parsed from the answer is empty, the result is not the fallback derived from the file
  name. For \<open>clip.mp4\<close> and an empty answer the title is the placeholder
  \<open>Untitled Video\<close>, while the fallback title is \<open>clip\<close>.
\<close>

theorem generate_metadata_empty_title_counterexample:
  "generate_metadata ascii_db (Some empty_reply) (str ''clip.mp4'') [] =
     Inr \<lparr>title = str ''Untitled Video'', description = str ''Video: clip''\<rparr> \<and>
   create_fallback_metadata ascii_db (str ''clip.mp4'') [] =
     \<lparr>title = str ''clip'', description = str ''Video: clip''\<rparr>"
  by (simp add: generate_metadata_def generate_with_model_def empty_reply_def
      extract_sections_def index_def clean_title_def fallback_eval_defs title_eval_defs)

text \<open>
  C3, amended. For every media identifier and context hint, metadata generation returns a
  (title, description) pair without raising; whenever the generation collaborator is
  unavailable or raises, the returned metadata equals the fallback derived from the file
  name; and when the collaborator answers but the title parsed from its answer is empty,
  the returned title is the placeholder \<open>Untitled Video\<close>.
\<close>

theorem generate_metadata_never_raises:
  "(\<exists>m. generate_metadata U model p c = Inr m) \<and>
   ((model = None \<or> (\<exists>g e. model = Some g \<and> g (build_prompt (path_stem p) c) = Inl e)) \<longrightarrow>
      generate_metadata U model p c = Inr (create_fallback_metadata U p c)) \<and>
   (\<forall>g text t d. model = Some g \<and> g (build_prompt (path_stem p) c) = Inr text \<and>
       extract_sections text = Inr (t, d) \<and> clean_title t = [] \<longrightarrow>
      (\<exists>m. generate_metadata U model p c = Inr m \<and> title m = str ''Untitled Video''))"
  by (auto simp: generate_metadata_def generate_with_model_def Let_def sanitize_title_def
      strip_def collapse_ws_def split_ws_def split: option.splits sum.splits)

theorem generate_metadata_never_raises_witness:
  "generate_metadata ascii_db (Some failing_model) (str ''clip.mp4'') [] =
     Inr (create_fallback_metadata ascii_db (str ''clip.mp4'') []) \<and>
   (\<exists>m. generate_metadata ascii_db (Some empty_reply) (str ''clip.mp4'') [] = Inr m \<and>
        title m = str ''Untitled Video'')"
proof -
  have raises: "failing_model (build_prompt (path_stem (str ''clip.mp4'')) []) = Inl OtherError"
    by (simp add: failing_model_def)
  have answers: "empty_reply (build_prompt (path_stem (str ''clip.mp4'')) []) = Inr []"
    by (simp add: empty_reply_def)
  have cut: "extract_sections [] = Inr ([], [])"
    by (simp add: extract_sections_def index_def py_split_def strip_def str_def)
  have blank: "clean_title [] = []"
    by (simp add: clean_title_def strip_def str_def)
  have first: "generate_metadata ascii_db (Some failing_model) (str ''clip.mp4'') [] =
      Inr (create_fallback_metadata ascii_db (str ''clip.mp4'') [])"
    using generate_metadata_never_raises [of ascii_db "Some failing_model" "str ''clip.mp4''" "[]"]
      raises by blast
  have second: "\<exists>m. generate_metadata ascii_db (Some empty_reply) (str ''clip.mp4'') [] = Inr m \<and>
      title m = str ''Untitled Video''"
    using generate_metadata_never_raises [of ascii_db "Some empty_reply" "str ''clip.mp4''" "[]"]
      answers cut blank by blast
  from first second show ?thesis by (rule conjI)
qed


section \<open>Properties of the progress events\<close>

lemma py_int_numeral: "py_int (numeral n) = numeral n"
  by (simp add: py_int_def)

text \<open>
  C4, as stated, fails. The stepper reports 0.1, 0.26, 0.5, 0.9 and 1.0 within six tenths
  of a second and then gives its response. The percentages are 10, 26, 50, 90 and 100; an
  event is a milestone only when its percentage is exactly 25, 50, 75 or 100, so the events
  printed are those at 50 and 100, and there is no event at 25.
\<close>

theorem progress_events_counterexample:
  "upload_loop 0 (five_reports (1 / 10) (2 / 10) (3 / 10) (4 / 10) (5 / 10) @
       [Chunk None (6 / 10) (Some (Some (str ''abc'')))]) =
     ([50, 100], Returns (Some (str ''abc'')))"
  by (simp add: five_reports_def py_int_numeral Let_def)

text \<open>
  C4, amended. For a stepper that reports the fractions 0.1, 0.26, 0.5, 0.9 and 1.0, the
  tracker prints the events at 50 and at 100 whatever the clock readings are, and it prints
  no event at 25 (the report 0.26 is 26 per cent, printed only when two seconds have passed
  since the last printed event). When the five reports come within two seconds of the
  start, the events printed are exactly those at 50 and 100.
\<close>

theorem progress_milestones:
  "50 \<in> set (fst (upload_loop t0 (five_reports t1 t2 t3 t4 t5 @ rest))) \<and>
   100 \<in> set (fst (upload_loop t0 (five_reports t1 t2 t3 t4 t5 @ rest))) \<and>
   25 \<notin> set (fst (upload_loop t0 (five_reports t1 t2 t3 t4 t5))) \<and>
   (t0 \<le> t1 \<and> t1 \<le> t2 \<and> t2 \<le> t3 \<and> t3 \<le> t4 \<and> t4 \<le> t5 \<and> t5 < t0 + 2 \<longrightarrow>
      fst (upload_loop t0 (five_reports t1 t2 t3 t4 t5)) = [50, 100])"
  by (simp add: five_reports_def py_int_numeral Let_def split: prod.splits)

theorem progress_milestones_witness:
  "50 \<in> set (fst (upload_loop 0 (five_reports (1 / 10) (2 / 10) (3 / 10) (4 / 10) (5 / 10) @ []))) \<and>
   100 \<in> set (fst (upload_loop 0 (five_reports (1 / 10) (2 / 10) (3 / 10) (4 / 10) (5 / 10) @ []))) \<and>
   25 \<notin> set (fst (upload_loop 0 (five_reports (1 / 10) (2 / 10) (3 / 10) (4 / 10) (5 / 10)))) \<and>
   fst (upload_loop 0 (five_reports (1 / 10) (2 / 10) (3 / 10) (4 / 10) (5 / 10))) = [50, 100]"
  using progress_milestones [of 0 "1 / 10" "2 / 10" "3 / 10" "4 / 10" "5 / 10" "[]"]
  by simp


section \<open>Properties of the upload\<close>

lemma generate_metadata_returns: "\<exists>m. generate_metadata U model p c = Inr m"
  by (simp add: generate_metadata_def Let_def split: option.splits sum.splits)

lemma except_clauses_handled: "e \<noteq> HttpError None \<Longrightarrow> except_clauses e evs = Returns (evs, None)"
  by (simp add: except_clauses_def split: py_error.splits option.splits)

lemma except_clauses_escape: "except_clauses (HttpError None) evs = Raises AttributeError"
  by (simp add: except_clauses_def)

lemma upload_video_unfold:
  assumes "file_exists env"
  shows "\<exists>req. upload_video U env p t d c pr tg ctx =
      (case open_transfer env req of
         Inl e \<Rightarrow> except_clauses e []
       | Inr chunks \<Rightarrow> finish_upload (upload_loop (clock_start env) chunks))"
proof -
  obtain m where m: "generate_metadata U (gemini env) p ctx = Inr m"
    using generate_metadata_returns by blast
  define td where "td = (if \<not> truthy t \<or> \<not> truthy d
       then (py_or t (title m), py_or d (description m)) else (py_or t [], py_or d []))"
  define req where "req = \<lparr>snippet_title = sanitize_title (fst td), snippet_description = snd td,
       snippet_tags = tg, snippet_categoryId = c, status_privacyStatus = pr, media_path = p\<rparr>"
  have "upload_video U env p t d c pr tg ctx =
      (case open_transfer env req of
         Inl e \<Rightarrow> except_clauses e []
       | Inr chunks \<Rightarrow> finish_upload (upload_loop (clock_start env) chunks))"
    using assms m unfolding upload_video_def td_def req_def finish_upload_def by simp
  then show ?thesis by blast
qed

lemma upload_loop_first_raise:
  "first_raise chunks = Some e \<Longrightarrow> \<exists>evs. upload_loop t0 chunks = (evs, Raises e)"
proof (induction chunks arbitrary: t0 rule: first_raise.induct)
  case 1 then show ?case by simp
next
  case (2 e' rest) then show ?case by simp
next
  case (3 st now r rest) then show ?case by simp
next
  case (4 st now rest)
  define t1 where "t1 = (if st \<noteq> None \<and> (2 \<le> now - t0 \<or>
      (case st of None \<Rightarrow> 0 | Some f \<Rightarrow> py_int (f * 100)) \<in> set [25, 50, 75, 100]) then now else t0)"
  from 4 have "first_raise rest = Some e" by simp
  from 4(1)[OF this, of t1] obtain evs where r: "upload_loop t1 rest = (evs, Raises e)" by blast
  show ?case
    unfolding upload_loop.simps Let_def t1_def[symmetric] r by simp
qed

lemma upload_video_error:
  assumes "file_exists env" "\<And>req. transfer_error (open_transfer env req) = Some e"
  shows "\<exists>evs. upload_video U env p t d c pr tg ctx = except_clauses e evs"
proof -
  from upload_video_unfold[OF assms(1), of U p t d c pr tg ctx] obtain req where
    uv: "upload_video U env p t d c pr tg ctx =
      (case open_transfer env req of
         Inl e \<Rightarrow> except_clauses e []
       | Inr chunks \<Rightarrow> finish_upload (upload_loop (clock_start env) chunks))" by blast
  show ?thesis
  proof (cases "open_transfer env req")
    case (Inl e') 
    with assms(2)[of req] have "e' = e" by (simp add: transfer_error_def)
    then show ?thesis using Inl by (auto simp: uv)
  next
    case (Inr chunks)
    with assms(2)[of req] have "first_raise chunks = Some e" by (simp add: transfer_error_def)
    from upload_loop_first_raise[OF this, of "clock_start env"] obtain evs
      where "upload_loop (clock_start env) chunks = (evs, Raises e)" by blast
    then show ?thesis by (auto simp: uv Inr finish_upload_def)
  qed
qed

section \<open>Properties of the dispatcher\<close>

lemma set_status_simps:
  "scheduled_uploads (set_status r s b) = scheduled_uploads b"
  "next_ref (set_status r s b) = next_ref b"
  "heap (set_status r s b) q = (if q = r then (heap b r)\<lparr>upload_status := s\<rparr> else heap b q)"
  by (simp_all add: set_status_def)

lemma settle_simps:
  "scheduled_uploads (settle r s b) = remove1 r (scheduled_uploads b)"
  "next_ref (settle r s b) = next_ref b"
  "upload_status (heap (settle r s b) r) = s"
  "q \<noteq> r \<Longrightarrow> heap (settle r s b) q = heap b q"
  by (simp_all add: settle_def set_status_simps)

lemma execute_entry_returns:
  assumes "execute_entry U env r b = Returns b'"
  shows "r \<in> set (scheduled_uploads b) \<and> (b' = settle r Completed b \<or> b' = settle r Failed b)"
proof -
  show ?thesis
  proof (cases "upload_video U env (video_path (heap b r)) None None (str ''22'')
      (privacy (heap b r)) (tags (heap b r)) (user_context (heap b r))")
    case (Returns x)
    obtain evs v where x: "x = (evs, v)" by (cases x)
    from assms Returns x show ?thesis
      by (simp add: execute_entry_def Let_def list_remove_def settle_def set_status_simps
          split: if_splits)
  next
    case (Raises e) with assms show ?thesis by (simp add: execute_entry_def Let_def)
  next
    case Blocked with assms show ?thesis by (simp add: execute_entry_def Let_def)
  qed
qed

lemma execute_entry_error:
  assumes "file_exists env" "\<And>req. transfer_error (open_transfer env req) = Some e"
    "r \<in> set (scheduled_uploads b)"
  shows "execute_entry U env r b =
     (if e = HttpError None then Raises AttributeError else Returns (settle r Failed b))"
proof -
  from upload_video_error[OF assms(1,2)] obtain evs where uv:
    "upload_video U env (video_path (heap b r)) None None (str ''22'')
      (privacy (heap b r)) (tags (heap b r)) (user_context (heap b r)) = except_clauses e evs"
    by blast
  show ?thesis
  proof (cases "e = HttpError None")
    case True
    then show ?thesis by (simp add: execute_entry_def Let_def uv except_clauses_escape)
  next
    case False
    then show ?thesis using assms(3)
      by (simp add: execute_entry_def Let_def uv except_clauses_handled list_remove_def
          settle_def set_status_simps truthy_def)
  qed
qed

lemma demo_bot_simps:
  "scheduled_uploads demo_bot = [0]"
  "upload_status (heap demo_bot 0) = Pending"
  "scheduled_time (heap demo_bot 0) = noon"
  by (simp_all add: demo_bot_def submit_def schedule_upload_def initial_bot_def
      new_ScheduledUpload_def)

lemma dt_le_refl: "dt_le d d"
  by (simp add: dt_le_def dt_fields_def)

lemma scan_entries_head:
  assumes "upload_status (heap b r) = Pending" "dt_le (scheduled_time (heap b r)) now"
  shows "scan_entries U world now (r # rest) b =
     (case execute_entry U (world r) r b of
        Returns b' \<Rightarrow> scan_entries U world now rest b'
      | Raises e \<Rightarrow> Raises e
      | Blocked \<Rightarrow> Blocked)"
  using assms by simp

lemma registry_ok_initial: "registry_ok initial_bot"
  by (simp add: registry_ok_def initial_bot_def)

lemma registry_ok_submit:
  assumes "registry_ok b"
  shows "registry_ok (submit b path time privacy0 tags0 ctx)"
  using assms
  by (auto simp: registry_ok_def submit_def schedule_upload_def new_ScheduledUpload_def
      list_all_iff)

lemma registry_ok_settle:
  assumes "registry_ok b"
  shows "registry_ok (settle r s b)"
proof -
  from assms have d: "distinct (scheduled_uploads b)" by (simp add: registry_ok_def)
  have "upload_status (heap (settle r s b) q) = Pending \<and> q < next_ref b"
    if q: "q \<in> set (remove1 r (scheduled_uploads b))" for q
  proof -
    from q d have ne: "q \<noteq> r" and live: "q \<in> set (scheduled_uploads b)" by auto
    from assms live have "upload_status (heap b q) = Pending \<and> q < next_ref b"
      by (simp add: registry_ok_def list_all_iff)
    then show ?thesis using ne by (simp add: settle_simps)
  qed
  then show ?thesis
    using d by (simp add: registry_ok_def list_all_iff settle_simps)
qed

lemma registry_ok_scan_entries:
  "registry_ok b \<Longrightarrow> scan_entries U world now rest b = Returns b' \<Longrightarrow> registry_ok b'"
proof (induction rest arbitrary: b)
  case Nil then show ?case by simp
next
  case (Cons r rest)
  show ?case
  proof (cases "upload_status (heap b r) = Pending \<and> dt_le (scheduled_time (heap b r)) now")
    case False
    then show ?thesis using Cons by auto
  next
    case True
    show ?thesis
    proof (cases "execute_entry U (world r) r b")
      case (Returns b1)
      from execute_entry_returns[OF Returns] have "b1 = settle r Completed b \<or> b1 = settle r Failed b"
        by blast
      then have "registry_ok b1" using registry_ok_settle[OF Cons.prems(1)] by auto
      moreover have "scan_entries U world now rest b1 = Returns b'"
        using Cons.prems(2) True Returns by simp
      ultimately show ?thesis by (rule Cons.IH)
    next
      case (Raises e) then show ?thesis using Cons.prems(2) True by simp
    next
      case Blocked then show ?thesis using Cons.prems(2) True by simp
    qed
  qed
qed

lemma reachable_registry_ok: "reachable U b \<Longrightarrow> registry_ok b"
proof (induction rule: reachable.induct)
  case start show ?case by (rule registry_ok_initial)
next
  case (submitted b path time privacy0 tags0 ctx)
  then show ?case by (simp add: registry_ok_submit)
next
  case (scanned b world current_time b')
  then show ?case unfolding scan_def by (blast intro: registry_ok_scan_entries)
qed


text \<open>
  C1. The claim: if the transfer collaborator raises on any step of a scheduled entry's
  upload, the dispatcher marks the entry \<open>failed\<close>, removes it from the active list and
  goes on to the next scan, and no exception leaves the dispatcher loop. The code does
  so for every exception but one (\<open>execute_entry_error\<close>): for an \<open>HttpError\<close> that has
  no response, the handler of \<open>upload_video\<close> raises \<open>AttributeError\<close> when it reads
  \<open>e.resp.status\<close>, and the exception leaves \<open>upload_video\<close>, the scan and the loop
  before the entry is marked or removed. The two runs: the bot holds one entry, due at
  the time of the scan; with an \<open>HttpError\<close> without a response the loop raises
  \<open>AttributeError\<close>; with an \<open>HttpError\<close> of status 403 it goes on with the entry
  \<open>failed\<close> and the list empty.
\<close>

theorem dispatcher_loop_escape:
  "scheduler_loop ascii_db [\<lparr>running = True, clock = noon, world_of = no_response_world\<rparr>] demo_bot
     = Raises AttributeError \<and>
   scheduler_loop ascii_db [\<lparr>running = True, clock = noon, world_of = raising_world\<rparr>] demo_bot
     = Returns (settle 0 Failed demo_bot) \<and>
   upload_status (heap (settle 0 Failed demo_bot) 0) = Failed \<and>
   scheduled_uploads (settle 0 Failed demo_bot) = []"
proof -
  have 1: "execute_entry ascii_db (no_response_world 0) 0 demo_bot = Raises AttributeError"
    using execute_entry_error[where env = "no_response_world 0" and e = "HttpError None"
        and r = 0 and b = demo_bot and U = ascii_db]
    by (simp add: no_response_world_def no_response_env_def transfer_error_def demo_bot_simps)
  have 2: "execute_entry ascii_db (raising_world 0) 0 demo_bot = Returns (settle 0 Failed demo_bot)"
    using execute_entry_error[where env = "raising_world 0" and e = "HttpError (Some 403)"
        and r = 0 and b = demo_bot and U = ascii_db]
    by (simp add: raising_world_def raising_env_def transfer_error_def demo_bot_simps)
  have s1: "scan ascii_db no_response_world noon demo_bot = Raises AttributeError"
    by (simp add: scan_def demo_bot_simps dt_le_refl 1)
  have s2: "scan ascii_db raising_world noon demo_bot = Returns (settle 0 Failed demo_bot)"
    by (simp add: scan_def demo_bot_simps dt_le_refl 2 settle_simps)
  show ?thesis by (simp add: s1 s2 settle_simps demo_bot_simps)
qed


text \<open>
  C2. Every execution of a due entry that comes back leaves the entry \<open>completed\<close> or
  \<open>failed\<close> and removes it from the active list (it removes the first occurrence of the
  reference, which is the only one in a list without repetition). Hence in every bot the
  program reaches between scans, the active list has no repetition and holds no entry
  whose status is \<open>completed\<close> or \<open>failed\<close>.
\<close>

theorem terminal_entries_leave_registry:
  "(execute_entry U env r b = Returns b' \<longrightarrow>
      (upload_status (heap b' r) = Completed \<or> upload_status (heap b' r) = Failed) \<and>
      scheduled_uploads b' = remove1 r (scheduled_uploads b) \<and>
      (distinct (scheduled_uploads b) \<longrightarrow> r \<notin> set (scheduled_uploads b'))) \<and>
   (reachable U b \<longrightarrow>
      distinct (scheduled_uploads b) \<and>
      (\<forall>q \<in> set (scheduled_uploads b).
         upload_status (heap b q) \<noteq> Completed \<and> upload_status (heap b q) \<noteq> Failed))"
proof (intro conjI impI)
  assume "execute_entry U env r b = Returns b'"
  from execute_entry_returns[OF this] obtain s where
    s: "s = Completed \<or> s = Failed" and b': "b' = settle r s b" by blast
  show "upload_status (heap b' r) = Completed \<or> upload_status (heap b' r) = Failed"
    using s by (simp add: b' settle_simps)
  show "scheduled_uploads b' = remove1 r (scheduled_uploads b)"
    by (simp add: b' settle_simps)
  assume "distinct (scheduled_uploads b)"
  then show "r \<notin> set (scheduled_uploads b')" by (simp add: b' settle_simps)
next
  assume "reachable U b"
  then have ok: "registry_ok b" by (rule reachable_registry_ok)
  then show "distinct (scheduled_uploads b)" by (simp add: registry_ok_def)
  show "\<forall>q \<in> set (scheduled_uploads b).
         upload_status (heap b q) \<noteq> Completed \<and> upload_status (heap b q) \<noteq> Failed"
    using ok by (auto simp: registry_ok_def list_all_iff)
qed

theorem terminal_entries_leave_registry_witness:
  "(\<exists>b'. execute_entry ascii_db missing_file_env 0 demo_bot = Returns b' \<and>
         upload_status (heap b' 0) = Failed \<and> 0 \<notin> set (scheduled_uploads b')) \<and>
   reachable ascii_db demo_bot \<and>
   upload_status (heap demo_bot 0) \<noteq> Completed \<and> upload_status (heap demo_bot 0) \<noteq> Failed"
proof -
  have run: "execute_entry ascii_db missing_file_env 0 demo_bot = Returns (settle 0 Failed demo_bot)"
    by (simp add: execute_entry_def upload_video_def missing_file_env_def Let_def truthy_def
        list_remove_def settle_def set_status_simps demo_bot_simps)
  have reach: "reachable ascii_db demo_bot"
    unfolding demo_bot_def by (intro reachable.submitted reachable.start)
  have failed: "upload_status (heap (settle 0 Failed demo_bot) 0) = Failed"
    by (simp add: settle_simps)
  from terminal_entries_leave_registry
      [where U = ascii_db and env = missing_file_env and r = 0 and b = demo_bot and
        b' = "settle 0 Failed demo_bot"]
    run reach failed
  show ?thesis by (simp add: demo_bot_simps)
qed


section \<open>Properties of the time expression parser\<close>

lemma then_p_simps:
  "then_p [] k = []"
  "then_p ((v, r) # ms) k = k v r @ then_p ms k"
  by (simp_all add: then_p_def)

lemma finish_head: "finish (((v, []) # ms) @ ms') = Inr v"
  by (simp add: finish_def)

lemma d_in_simps:
  "d_in lo hi [] = []"
  "d_in lo hi (c # t) = (if 48 + lo \<le> c \<and> c \<le> 48 + hi then [(c - 48, t)] else [])"
  by (simp_all add: d_in_def)

lemma d_any_simps:
  "d_any U [] = []"
  "48 \<le> c \<Longrightarrow> c \<le> 57 \<Longrightarrow> d_any U (c # t) = [(c - 48, t)]"
  by (simp_all add: d_any_def digit_val_def)

lemma d_any_other: "c < 48 \<or> (57 < c \<and> c < 128) \<Longrightarrow> d_any U (c # t) = []"
  by (auto simp: d_any_def digit_val_def)

lemma lit_simps: "lit c [] = []" "lit c (x # t) = (if x = c then [((), t)] else [])"
  by (simp_all add: lit_def)

lemma re_H_two:
  assumes "a \<le> 2" "b \<le> 9" "a = 2 \<longrightarrow> b \<le> 3"
  shows "\<exists>ms. re_H U ((48 + a) # (48 + b) # t) = (10 * a + b, t) # ms"
  using assms
  by (cases "a = 2") (simp_all add: re_H_def two_digits_def d_in_simps d_any_simps then_p_simps)

lemma re_H_one: "a \<le> 9 \<Longrightarrow> re_H U [48 + a] = [(a, [])]"
  by (simp add: re_H_def two_digits_def d_in_simps d_any_simps then_p_simps)

lemma re_M_two:
  assumes "a \<le> 5" "b \<le> 9"
  shows "\<exists>ms. re_M U ((48 + a) # (48 + b) # t) = (10 * a + b, t) # ms"
  using assms
  by (simp add: re_M_def two_digits_def d_in_simps d_any_simps then_p_simps)

lemma re_I_two:
  assumes "a \<le> 1" "b \<le> 9" "a = 1 \<longrightarrow> b \<le> 2" "a = 0 \<longrightarrow> 1 \<le> b"
  shows "\<exists>ms. re_I ((48 + a) # (48 + b) # t) = (10 * a + b, t) # ms"
  using assms
  by (cases "a = 1") (simp_all add: re_I_def two_digits_def d_in_simps then_p_simps)

lemma re_I_one:
  assumes "1 \<le> a" "a \<le> 9" "c < 48 \<or> 57 < c"
  shows "re_I ((48 + a) # c # t) = [(a, c # t)]"
  using assms
  by (auto simp: re_I_def two_digits_def d_in_simps then_p_simps)

lemma re_d_two:
  assumes "a \<le> 3" "b \<le> 9" "a = 3 \<longrightarrow> b \<le> 1" "a = 0 \<longrightarrow> 1 \<le> b"
  shows "\<exists>ms. re_d U ((48 + a) # (48 + b) # t) = (10 * a + b, t) # ms"
proof -
  from assms(1) consider "a = 0" | "a = 1" | "a = 2" | "a = 3" by linarith
  then show ?thesis
    using assms
    by cases (simp_all add: re_d_def two_digits_def d_in_simps d_any_simps then_p_simps)
qed

lemma re_Y_four:
  assumes "a \<le> 9" "b \<le> 9" "c \<le> 9" "d \<le> 9"
  shows "re_Y U ((48 + a) # (48 + b) # (48 + c) # (48 + d) # t) =
         [(1000 * a + 100 * b + 10 * c + d, t)]"
  using assms by (simp add: re_Y_def d_any_simps then_p_simps)

lemma spaces1_one: "\<not> isspace c \<Longrightarrow> spaces1 (32 # c # t) = [((), c # t)]"
  by (simp add: spaces1_def isspace_def)

lemma re_p_simps: "re_p (65 # 77 # t) = [(AM, t)]" "re_p (80 # 77 # t) = [(PM, t)]"
  by (simp_all add: re_p_def)

lemma re_H_dec2:
  assumes "h < 24"
  shows "\<exists>ms. re_H U (dec2 h @ t) = (h, t) # ms"
proof -
  have "h div 10 \<le> 2" "h mod 10 \<le> 9" "h div 10 = 2 \<longrightarrow> h mod 10 \<le> 3"
    using assms by presburger+
  from re_H_two[OF this, of U t] show ?thesis by (simp add: dec2_def)
qed

lemma re_M_dec2:
  assumes "m < 60"
  shows "\<exists>ms. re_M U (dec2 m @ t) = (m, t) # ms"
proof -
  have "m div 10 \<le> 5" "m mod 10 \<le> 9" using assms by presburger+
  from re_M_two[OF this, of U t] show ?thesis by (simp add: dec2_def)
qed

lemma re_I_dec2:
  assumes "1 \<le> m" "m \<le> 12"
  shows "\<exists>ms. re_I (dec2 m @ t) = (m, t) # ms"
proof -
  have "m div 10 \<le> 1" "m mod 10 \<le> 9" "m div 10 = 1 \<longrightarrow> m mod 10 \<le> 2"
    "m div 10 = 0 \<longrightarrow> 1 \<le> m mod 10"
    using assms by presburger+
  from re_I_two[OF this, of t] show ?thesis by (simp add: dec2_def)
qed

lemma re_I_dec:
  assumes "1 \<le> h" "h \<le> 12" "c < 48 \<or> 57 < c"
  shows "\<exists>ms. re_I (dec h @ c # t) = (h, c # t) # ms"
proof (cases "h < 10")
  case True
  with assms re_I_one[of h c t] show ?thesis by (simp add: dec_def)
next
  case False
  with re_I_dec2[OF assms(1,2), of "c # t"] show ?thesis by (simp add: dec_def)
qed

lemma re_d_dec2:
  assumes "1 \<le> d" "d \<le> 31"
  shows "\<exists>ms. re_d U (dec2 d @ t) = (d, t) # ms"
proof -
  have "d div 10 \<le> 3" "d mod 10 \<le> 9" "d div 10 = 3 \<longrightarrow> d mod 10 \<le> 1"
    "d div 10 = 0 \<longrightarrow> 1 \<le> d mod 10"
    using assms by presburger+
  from re_d_two[OF this, of U t] show ?thesis by (simp add: dec2_def)
qed

lemma dec4_value:
  "1000 * (y div 1000) + 100 * (y div 100 mod 10) + 10 * (y div 10 mod 10) + y mod 10 = (y::nat)"
proof -
  have a: "y = 10 * (y div 10) + y mod 10" by simp
  have "y div 10 div 10 = y div (10 * 10)" by (rule div_mult2_eq[symmetric])
  then have b: "y div 10 = 10 * (y div 100) + y div 10 mod 10"
    using div_mult_mod_eq[of "y div 10" 10] by simp
  have "y div 100 div 10 = y div (100 * 10)" by (rule div_mult2_eq[symmetric])
  then have c: "y div 100 = 10 * (y div 1000) + y div 100 mod 10"
    using div_mult_mod_eq[of "y div 100" 10] by simp
  from a b c show ?thesis by linarith
qed

lemma re_Y_dec4:
  assumes "y \<le> 9999"
  shows "re_Y U (dec4 y @ t) = [(y, t)]"
proof -
  have "y div 1000 \<le> 9" using assms by simp
  moreover have "y div 100 mod 10 \<le> 9" "y div 10 mod 10 \<le> 9" "y mod 10 \<le> 9"
    by simp_all
  ultimately show ?thesis
    using re_Y_four[of "y div 1000" "y div 100 mod 10" "y div 10 mod 10" "y mod 10" U t]
    by (simp add: dec4_def dec4_value)
qed

lemma strptime_H_M_ok:
  assumes "h < 24" "m < 60"
  shows "strptime_H_M U (dec2 h @ 58 # dec2 m) = Inr (h, m)"
proof -
  from re_H_dec2[OF assms(1)] obtain ms1 where
    1: "re_H U (dec2 h @ 58 # dec2 m) = (h, 58 # dec2 m) # ms1" by blast
  from re_M_dec2[OF assms(2), of U "[]"] obtain ms2 where
    2: "re_M U (dec2 m) = (m, []) # ms2" by auto
  show ?thesis
    by (simp add: strptime_H_M_def 1 2 then_p_simps lit_simps finish_def)
qed

lemma strptime_H_ok:
  assumes "h < 24"
  shows "strptime_H U (dec2 h) = Inr (h, 0)" "strptime_H U (dec h) = Inr (h, 0)"
proof -
  from re_H_dec2[OF assms, of U "[]"] obtain ms1 where
    1: "re_H U (dec2 h) = (h, []) # ms1" by auto
  show a: "strptime_H U (dec2 h) = Inr (h, 0)"
    by (simp add: strptime_H_def 1 then_p_simps finish_def)
  show "strptime_H U (dec h) = Inr (h, 0)"
  proof (cases "h < 10")
    case True
    then show ?thesis
      using re_H_one[of h U] by (simp add: dec_def strptime_H_def then_p_simps finish_def)
  next
    case False then show ?thesis using a by (simp add: dec_def)
  qed
qed

lemma tail_p: "then_p (spaces1 (32 # upper_text p)) (\<lambda>u r. then_p (re_p r) (\<lambda>q r. [(f q, r)])) = [(f p, [])]"
  by (cases p) (simp_all add: upper_text_def spaces1_one isspace_def re_p_simps then_p_simps)

lemma strptime_I_p_ok:
  assumes "1 \<le> h" "h \<le> 12"
  shows "strptime_I_p (dec h @ 32 # upper_text p) = Inr (hour12 h p, 0)"
proof -
  from re_I_dec[OF assms, of 32 "upper_text p"] obtain ms1 where
    1: "re_I (dec h @ 32 # upper_text p) = (h, 32 # upper_text p) # ms1" by auto
  show ?thesis
    by (simp add: strptime_I_p_def 1 then_p_simps tail_p finish_def)
qed

lemma strptime_I_M_p_ok:
  assumes "1 \<le> h" "h \<le> 12" "m < 60"
  shows "strptime_I_M_p U (dec h @ 58 # dec2 m @ 32 # upper_text p) = Inr (hour12 h p, m)"
proof -
  from re_I_dec[OF assms(1,2), of 58 "dec2 m @ 32 # upper_text p"] obtain ms1 where
    1: "re_I (dec h @ 58 # dec2 m @ 32 # upper_text p) = (h, 58 # dec2 m @ 32 # upper_text p) # ms1"
    by auto
  from re_M_dec2[OF assms(3), of U "32 # upper_text p"] obtain ms2 where
    2: "re_M U (dec2 m @ 32 # upper_text p) = (m, 32 # upper_text p) # ms2" by auto
  show ?thesis
    by (simp add: strptime_I_M_p_def 1 2 then_p_simps lit_simps tail_p finish_def)
qed

lemma days_in_month_le: "days_in_month y m \<le> 31"
  by (simp add: days_in_month_def)

lemma strptime_Y_m_d_ok:
  assumes "valid_date y m d"
  shows "strptime_Y_m_d U (date_text y m d) =
         Inr \<lparr>year = y, month = m, day = d, hour = 0, minute = 0, second = 0, microsecond = 0\<rparr>"
proof -
  from assms have y: "y \<le> 9999" and m: "1 \<le> m" "m \<le> 12" and d: "1 \<le> d" "d \<le> 31"
    using days_in_month_le[of y m] by (auto simp: valid_date_def)
  have 1: "re_Y U (dec4 y @ 45 # dec2 m @ 45 # dec2 d) = [(y, 45 # dec2 m @ 45 # dec2 d)]"
    by (rule re_Y_dec4[OF y])
  from re_I_dec2[OF m, of "45 # dec2 d"] obtain ms2 where
    2: "re_I (dec2 m @ 45 # dec2 d) = (m, 45 # dec2 d) # ms2" by auto
  from re_d_dec2[OF d, of U "[]"] obtain ms3 where
    3: "re_d U (dec2 d) = (d, []) # ms3" by auto
  show ?thesis
    using assms
    by (simp add: strptime_Y_m_d_def date_text_def str_def 1 2 3 then_p_simps lit_simps finish_def)
qed

lemma plain_phrase: "plain_char c \<Longrightarrow> phrase_char c"
  by (auto simp: plain_char_def phrase_char_def)

lemma phrase_char_facts:
  assumes "phrase_char c"
  shows "\<not> isspace c" "c < 128" "ascii_lower c = c" "c \<noteq> 32"
  using assms by (auto simp: phrase_char_def isspace_def ascii_lower_def)

lemma dropWhile_keep: "s = [] \<or> \<not> P (hd s) \<Longrightarrow> dropWhile P s = s"
  by (cases s) auto

lemma strip_id:
  assumes "s = [] \<or> (\<not> isspace (hd s) \<and> \<not> isspace (last s))"
  shows "strip s = s"
proof (cases "s = []")
  case True then show ?thesis by (simp add: strip_def)
next
  case False
  with assms have h: "\<not> isspace (hd s)" and l: "\<not> isspace (last s)" by auto
  have 1: "dropWhile isspace s = s" using h by (simp add: dropWhile_keep)
  have "hd (rev s) = last s" using False by (simp add: hd_rev)
  then have 2: "dropWhile isspace (rev s) = rev s" using l by (simp add: dropWhile_keep)
  show ?thesis by (simp add: strip_def 1 2)
qed

lemma prep_phrase:
  assumes "list_all phrase_char s"
  shows "py_lower U (strip s) = s" "32 \<notin> set s"
proof -
  have ends: "s = [] \<or> (\<not> isspace (hd s) \<and> \<not> isspace (last s))"
  proof (cases "s = []")
    case False
    then have "hd s \<in> set s" "last s \<in> set s" by simp_all
    with assms show ?thesis by (auto simp: list_all_iff phrase_char_facts)
  qed simp
  have "py_lower U s = s"
    using assms
    by (auto simp: py_lower_def list_all_iff phrase_char_facts intro: map_idI)
  then show "py_lower U (strip s) = s" by (simp add: strip_id[OF ends])
  show "32 \<notin> set s" using assms by (auto simp: list_all_iff dest: phrase_char_facts(4))
qed

lemma plain_dec2: "n < 100 \<Longrightarrow> list_all plain_char (dec2 n)"
proof -
  assume "n < 100"
  then have "n div 10 \<le> 9" by simp
  moreover have "n mod 10 \<le> 9" by simp
  ultimately show ?thesis by (simp add: dec2_def plain_char_def)
qed

lemma plain_dec: "n < 100 \<Longrightarrow> list_all plain_char (dec n)"
  by (simp add: dec_def plain_dec2) (simp add: plain_char_def)

lemma plain_dec4: "n \<le> 9999 \<Longrightarrow> list_all plain_char (dec4 n)"
proof -
  assume "n \<le> 9999"
  then have "n div 1000 \<le> 9" by simp
  moreover have "n div 100 mod 10 \<le> 9" "n div 10 mod 10 \<le> 9" "n mod 10 \<le> 9" by simp_all
  ultimately show ?thesis by (simp add: dec4_def plain_char_def)
qed

lemma contains_skip:
  "list_all (\<lambda>c. c \<noteq> x) pre \<Longrightarrow> contains (x # xs) (pre @ s) = contains (x # xs) s"
  by (induction pre) auto

lemma py_replace_skip:
  "list_all (\<lambda>c. c \<noteq> x) pre \<Longrightarrow> py_replace (x # xs) new (pre @ s) = pre @ py_replace (x # xs) new s"
  by (induction pre) auto

lemma plain_not_letter:
  assumes "list_all plain_char b"
  shows "list_all (\<lambda>c. c \<noteq> 97) b" "list_all (\<lambda>c. c \<noteq> 112) b"
  using assms by (auto simp: list_all_iff plain_char_def)

lemma meridiem_contains:
  assumes "list_all plain_char b"
  shows "contains (str ''am'') (b @ meridiem_text p) \<or> contains (str ''pm'') (b @ meridiem_text p)"
  using contains_skip[OF plain_not_letter(1)[OF assms], of "[109]" "meridiem_text p"]
        contains_skip[OF plain_not_letter(2)[OF assms], of "[109]" "meridiem_text p"]
  by (cases p) (simp_all add: str_def meridiem_text_def)

lemma meridiem_replace:
  assumes "list_all plain_char b"
  shows "py_replace (str ''pm'') (str '' PM'') (py_replace (str ''am'') (str '' AM'') (b @ meridiem_text p))
         = b @ 32 # upper_text p"
  using py_replace_skip[OF plain_not_letter(1)[OF assms], of "[109]"]
        py_replace_skip[OF plain_not_letter(2)[OF assms], of "[109]"]
  by (cases p) (simp_all add: str_def meridiem_text_def upper_text_def)

lemma plain_no_letters:
  assumes "list_all plain_char b"
  shows "\<not> contains (str ''am'') b" "\<not> contains (str ''pm'') b"
  using contains_skip[OF plain_not_letter(1)[OF assms], of "[109]" "[]"]
        contains_skip[OF plain_not_letter(2)[OF assms], of "[109]" "[]"]
  by (simp_all add: str_def)

lemma strip_upper:
  assumes "list_all plain_char b" "b \<noteq> []"
  shows "strip (b @ 32 # upper_text p) = b @ 32 # upper_text p"
proof (rule strip_id, rule disjI2, rule conjI)
  from assms obtain c cs where b: "b = c # cs" by (cases b) auto
  with assms(1) have "plain_char c" by simp
  then show "\<not> isspace (hd (b @ 32 # upper_text p))"
    using phrase_char_facts(1)[OF plain_phrase] by (simp add: b)
  show "\<not> isspace (last (b @ 32 # upper_text p))"
    by (cases p) (simp_all add: upper_text_def isspace_def)
qed

lemma dec_nonempty: "dec h \<noteq> []" "dec2 h \<noteq> []"
  by (simp_all add: dec_def dec2_def)

lemma plain_no_colon_dec:
  assumes "h < 100"
  shows "58 \<notin> set (dec h)"
proof -
  have "h div 10 \<noteq> 10" using assms by simp
  moreover have "h mod 10 \<noteq> 10" by (metis mod_less_divisor less_irrefl zero_less_numeral)
  ultimately show ?thesis using assms by (auto simp: dec_def dec2_def)
qed

lemma upper_no_colon: "58 \<notin> set (upper_text p)"
  by (cases p) (simp_all add: upper_text_def)

lemma parse_am_pm_hour:
  assumes "1 \<le> h" "h \<le> 12"
  shows "parse_am_pm U (dec h @ meridiem_text p) = Inr (hour12 h p, 0)"
proof -
  have pl: "list_all plain_char (dec h)" using assms by (simp add: plain_dec)
  show ?thesis
    using strptime_I_p_ok[OF assms, of p]
    using plain_no_colon_dec[of h] upper_no_colon[of p] assms
    by (simp add: parse_am_pm_def meridiem_replace[OF pl] strip_upper[OF pl dec_nonempty(1)] Let_def)
qed

lemma parse_am_pm_hour_minute:
  assumes "1 \<le> h" "h \<le> 12" "m < 60"
  shows "parse_am_pm U (dec h @ 58 # dec2 m @ meridiem_text p) = Inr (hour12 h p, m)"
proof -
  have pl: "list_all plain_char (dec h @ 58 # dec2 m)"
    using assms by (simp add: plain_dec plain_dec2) (simp add: plain_char_def)
  have ne: "dec h @ 58 # dec2 m \<noteq> []" by simp
  show ?thesis
    using strptime_I_M_p_ok[OF assms, of U p] meridiem_replace[OF pl, of p] strip_upper[OF pl ne, of p]
    by (simp add: parse_am_pm_def Let_def)
qed

lemma time_text_chars:
  assumes "valid_phrase tp"
  shows "list_all phrase_char (time_text tp)"
proof -
  have mer: "list_all phrase_char (meridiem_text p)" for p
    by (cases p) (simp_all add: meridiem_text_def str_def phrase_char_def)
  have d: "n < 100 \<Longrightarrow> list_all phrase_char (dec n)" for n
    using plain_dec[of n] by (auto simp: list_all_iff plain_phrase)
  have d2: "n < 100 \<Longrightarrow> list_all phrase_char (dec2 n)" for n
    using plain_dec2[of n] by (auto simp: list_all_iff plain_phrase)
  have c: "phrase_char 58" by (simp add: phrase_char_def)
  from assms show ?thesis
    by (cases tp rule: time_text.cases) (simp_all add: mer d d2 c str_def)
qed

text \<open>What the time-only branch and the date branch read from a phrase.\<close>

lemma time_only_dispatch:
  assumes "valid_phrase tp"
  shows "(if contains (str ''am'') (time_text tp) \<or> contains (str ''pm'') (time_text tp)
          then parse_am_pm U (time_text tp)
          else if 58 \<in> set (time_text tp) then strptime_H_M U (strip (time_text tp))
          else strptime_H U (strip (time_text tp))) = Inr (hour_of tp, minute_of tp)"
proof (cases tp rule: time_text.cases)
  case (1 h p)
  with assms have h: "1 \<le> h" "h \<le> 12" by simp_all
  have pl: "list_all plain_char (dec h)" using h by (simp add: plain_dec)
  show ?thesis
    using meridiem_contains[OF pl, of p] parse_am_pm_hour[OF h, of U p]
    by (simp add: 1)
next
  case (2 h m p)
  with assms have h: "1 \<le> h" "h \<le> 12" "m < 60" by simp_all
  have pl: "list_all plain_char (dec h @ 58 # dec2 m)"
    using h by (simp add: plain_dec plain_dec2) (simp add: plain_char_def)
  show ?thesis
    using meridiem_contains[OF pl, of p] parse_am_pm_hour_minute[OF h, of U p]
    by (simp add: 2 str_def)
next
  case (3 h m)
  with assms have h: "h < 24" "m < 60" by simp_all
  have pl: "list_all plain_char (dec2 h @ 58 # dec2 m)"
    using h by (simp add: plain_dec2) (simp add: plain_char_def)
  have ph: "list_all phrase_char (dec2 h @ 58 # dec2 m)"
    using pl by (auto simp: list_all_iff plain_phrase)
  have st: "strip (dec2 h @ 58 # dec2 m) = dec2 h @ 58 # dec2 m"
    using prep_phrase(1)[OF ph, of ascii_db] ph
    by (intro strip_id) (auto simp: list_all_iff dec2_def phrase_char_facts)
  show ?thesis
    using plain_no_letters[OF pl] strptime_H_M_ok[OF h, of U]
    by (simp add: 3 str_def st)
qed

lemma clock24_colon:
  assumes "valid_phrase tp"
    "\<not> (contains (str ''am'') (time_text tp) \<or> contains (str ''pm'') (time_text tp))"
  shows "58 \<in> set (time_text tp)"
proof (cases tp rule: time_text.cases)
  case (1 h p)
  with assms(1) have "list_all plain_char (dec h)" by (simp add: plain_dec)
  from meridiem_contains[OF this, of p] assms(2) 1 show ?thesis by simp
next
  case (2 h m p) then show ?thesis by (simp add: str_def)
next
  case (3 h m) then show ?thesis by (simp add: str_def)
qed

lemma date_branch_dispatch:
  assumes "valid_phrase tp"
  shows "(if contains (str ''am'') (time_text tp) \<or> contains (str ''pm'') (time_text tp)
          then parse_am_pm U (time_text tp)
          else strptime_H_M U (strip (time_text tp))) = Inr (hour_of tp, minute_of tp)"
proof (cases "contains (str ''am'') (time_text tp) \<or> contains (str ''pm'') (time_text tp)")
  case True
  with time_only_dispatch[OF assms, of U] show ?thesis by simp
next
  case False
  from clock24_colon[OF assms False] time_only_dispatch[OF assms, of U] False
  show ?thesis by simp
qed

lemma days_before_month_step:
  assumes "1 \<le> m" "m < 12"
  shows "days_before_month y (Suc m) = days_before_month y m + days_in_month y m"
proof -
  from assms have "m = 1 \<or> m = 2 \<or> m = 3 \<or> m = 4 \<or> m = 5 \<or> m = 6 \<or> m = 7 \<or>
      m = 8 \<or> m = 9 \<or> m = 10 \<or> m = 11" by arith
  then show ?thesis
    by (elim disjE) (simp_all add: days_before_month_def days_in_month_def)
qed

lemma leap_step:
  "Suc z div 4 + Suc z div 400 - Suc z div 100 =
   z div 4 + z div 400 - z div 100 + (if is_leap (Suc z) then 1 else 0)"
proof -
  have le: "z div 100 \<le> z div 4" by (rule div_le_mono2) simp_all
  have m1: "Suc z mod 400 = 0 \<Longrightarrow> Suc z mod 100 = 0" by presburger
  have m2: "Suc z mod 100 = 0 \<Longrightarrow> Suc z mod 4 = 0" by presburger
  show ?thesis
    using le m1 m2 by (auto simp: is_leap_def div_Suc)
qed

lemma year_step_arith:
  fixes A B C A' B' C' z l :: nat
  assumes "C \<le> A" "C' \<le> A'" "A' + B' - C' = A + B - C + l"
  shows "365 * Suc z + A' + B' - C' = 365 * z + A + B - C + 365 + l"
  using assms by simp

lemma days_before_year_step:
  assumes "1 \<le> y"
  shows "days_before_year (Suc y) = days_before_year y + 365 + (if is_leap y then 1 else 0)"
proof -
  from assms obtain z where y: "y = Suc z" by (cases y) auto
  have le: "z div 100 \<le> z div 4" by (rule div_le_mono2) simp_all
  have le': "Suc z div 100 \<le> Suc z div 4" by (rule div_le_mono2) simp_all
  show ?thesis
    unfolding days_before_year_def y diff_Suc_1
    by (rule year_step_arith[OF le le' leap_step])
qed

lemma add_one_day_fields:
  assumes "add_one_day t = Inr t'"
  shows "hour t' = hour t" "minute t' = minute t" "second t' = second t"
    "microsecond t' = microsecond t"
  using assms by (auto simp: add_one_day_def split: if_splits)

lemma add_one_day_ordinal:
  assumes v: "valid_date (year t) (month t) (day t)" and a: "add_one_day t = Inr t'"
  shows "toordinal t' = toordinal t + 1"
proof -
  consider (d) "day t < days_in_month (year t) (month t)"
    | (m) "\<not> day t < days_in_month (year t) (month t)" "month t < 12"
    | (y) "\<not> day t < days_in_month (year t) (month t)" "\<not> month t < 12" "year t < 9999"
    | (o) "\<not> day t < days_in_month (year t) (month t)" "\<not> month t < 12" "\<not> year t < 9999"
    by blast
  then show ?thesis
  proof cases
    case d
    with a have "t' = t\<lparr>day := day t + 1\<rparr>" by (simp add: add_one_day_def)
    then show ?thesis by (simp add: toordinal_def)
  next
    case m
    with a have t': "t' = t\<lparr>month := month t + 1, day := 1\<rparr>" by (simp add: add_one_day_def)
    from v m have dd: "day t = days_in_month (year t) (month t)" and m1: "1 \<le> month t"
      by (auto simp: valid_date_def)
    show ?thesis
      using days_before_month_step[OF m1 m(2), of "year t"]
      by (simp add: t' toordinal_def dd)
  next
    case y
    with a have t': "t' = t\<lparr>year := year t + 1, month := 1, day := 1\<rparr>"
      by (simp add: add_one_day_def)
    from v y have mm: "month t = 12" and dd: "day t = 31" and y1: "1 \<le> year t"
      by (auto simp: valid_date_def days_in_month_def)
    have "days_before_month (year t) 12 + 31 = 365 + (if is_leap (year t) then 1 else 0)"
      by (simp add: days_before_month_def)
    moreover have "days_before_month (Suc (year t)) 1 = 0"
      by (simp add: days_before_month_def)
    ultimately show ?thesis
      using days_before_year_step[OF y1]
      by (simp add: t' toordinal_def mm dd)
  next
    case o
    with a show ?thesis by (simp add: add_one_day_def)
  qed
qed

lemma add_one_day_ok:
  assumes "valid_date (year t) (month t) (day t)"
    "\<not> (year t = 9999 \<and> month t = 12 \<and> day t = 31)"
  shows "\<exists>t'. add_one_day t = Inr t'"
proof -
  have "year t < 9999"
    if "\<not> day t < days_in_month (year t) (month t)" "\<not> month t < 12"
  proof -
    from assms(1) that have "month t = 12" "day t = 31"
      by (auto simp: valid_date_def days_in_month_def)
    with assms show ?thesis by (auto simp: valid_date_def)
  qed
  then show ?thesis by (auto simp: add_one_day_def)
qed

lemma timeline_next_day:
  assumes "toordinal t' = toordinal t + 1" "hour t' = hour t" "minute t' = minute t"
    "second t' = second t" "microsecond t' = microsecond t"
  shows "timeline t' = timeline t + 86400000000"
  using assms by (simp add: timeline_def)

text \<open>The end of the time-only branch, for the hour and minute read.\<close>

lemma rollover:
  fixes now :: datetime
  defines "result \<equiv> \<lambda>h mi. now\<lparr>hour := h, minute := mi, second := 0, microsecond := 0\<rparr>"
  assumes "valid_datetime now" "\<not> (year now = 9999 \<and> month now = 12 \<and> day now = 31)"
  shows "\<exists>t. add_one_day (result h mi) = Inr t \<and> toordinal t = toordinal now + 1 \<and>
             timeline t = timeline (result h mi) + 86400000000 \<and>
             hour t = h \<and> minute t = mi \<and> second t = 0 \<and> microsecond t = 0"
proof -
  have v: "valid_date (year (result h mi)) (month (result h mi)) (day (result h mi))"
    using assms(2) by (simp add: result_def valid_datetime_def)
  have nl: "\<not> (year (result h mi) = 9999 \<and> month (result h mi) = 12 \<and> day (result h mi) = 31)"
    using assms(3) by (simp add: result_def)
  from add_one_day_ok[OF v nl] obtain t where t: "add_one_day (result h mi) = Inr t" by blast
  have o: "toordinal t = toordinal (result h mi) + 1" by (rule add_one_day_ordinal[OF v t])
  have same: "toordinal (result h mi) = toordinal now" by (simp add: result_def toordinal_def)
  note f = add_one_day_fields[OF t]
  have "timeline t = timeline (result h mi) + 86400000000"
    by (rule timeline_next_day[OF o f])
  with t o same f show ?thesis by (simp add: result_def)
qed

lemma parse_time_only:
  assumes "valid_phrase tp"
  shows "parse_schedule_time U now (time_text tp) =
     (if dt_le (same_day now tp) now
      then (case add_one_day (same_day now tp) of Inl e \<Rightarrow> None | Inr t \<Rightarrow> Some t)
      else Some (same_day now tp))"
proof -
  note ch = time_text_chars[OF assms]
  show ?thesis
    using time_only_dispatch[OF assms, of U]
    by (simp add: parse_schedule_time_def prep_phrase[OF ch] parse_body_def same_day_def Let_def)
qed

lemma add_one_day_last:
  "last_day t \<Longrightarrow> add_one_day t = Inl OverflowError"
  by (simp add: add_one_day_def last_day_def days_in_month_def)

text \<open>A phrase with a space before \<open>am\<close> or \<open>pm\<close>.\<close>

lemma spaces1_two: "\<not> isspace c \<Longrightarrow> spaces1 (32 # 32 # c # t) = [((), c # t), ((), 32 # c # t)]"
  by (simp add: spaces1_def isspace_def upt_rec)

lemma re_p_space: "re_p (32 # t) = []"
  by (simp add: re_p_def split: list.splits)

lemma tail_p2:
  "then_p (spaces1 (32 # 32 # upper_text p)) (\<lambda>u r. then_p (re_p r) (\<lambda>q r. [(f q, r)])) = [(f p, [])]"
  by (cases p) (simp_all add: upper_text_def spaces1_two isspace_def re_p_simps re_p_space then_p_simps)

lemma strptime_I_p_ok2:
  assumes "1 \<le> h" "h \<le> 12"
  shows "strptime_I_p (dec h @ 32 # 32 # upper_text p) = Inr (hour12 h p, 0)"
proof -
  from re_I_dec[OF assms, of 32 "32 # upper_text p"] obtain ms1 where
    1: "re_I (dec h @ 32 # 32 # upper_text p) = (h, 32 # 32 # upper_text p) # ms1" by auto
  show ?thesis
    by (simp add: strptime_I_p_def 1 then_p_simps tail_p2 finish_def)
qed

lemma strptime_I_M_p_ok2:
  assumes "1 \<le> h" "h \<le> 12" "m < 60"
  shows "strptime_I_M_p U (dec h @ 58 # dec2 m @ 32 # 32 # upper_text p) = Inr (hour12 h p, m)"
proof -
  from re_I_dec[OF assms(1,2), of 58 "dec2 m @ 32 # 32 # upper_text p"] obtain ms1 where
    1: "re_I (dec h @ 58 # dec2 m @ 32 # 32 # upper_text p) =
        (h, 58 # dec2 m @ 32 # 32 # upper_text p) # ms1"
    by auto
  from re_M_dec2[OF assms(3), of U "32 # 32 # upper_text p"] obtain ms2 where
    2: "re_M U (dec2 m @ 32 # 32 # upper_text p) = (m, 32 # 32 # upper_text p) # ms2" by auto
  show ?thesis
    by (simp add: strptime_I_M_p_def 1 2 then_p_simps lit_simps tail_p2 finish_def)
qed

lemma not_letter_space:
  assumes "list_all plain_char b"
  shows "list_all (\<lambda>c. c \<noteq> 97) (b @ [32])" "list_all (\<lambda>c. c \<noteq> 112) (b @ [32])"
  using assms by (auto simp: list_all_iff plain_char_def)

lemma spaced_contains:
  assumes "list_all plain_char b"
  shows "contains (str ''am'') (b @ 32 # meridiem_text p) \<or>
         contains (str ''pm'') (b @ 32 # meridiem_text p)"
  using contains_skip[OF not_letter_space(1)[OF assms], of "[109]" "meridiem_text p"]
        contains_skip[OF not_letter_space(2)[OF assms], of "[109]" "meridiem_text p"]
  by (cases p) (simp_all add: str_def meridiem_text_def)

lemma spaced_replace:
  assumes "list_all plain_char b"
  shows "py_replace (str ''pm'') (str '' PM'')
           (py_replace (str ''am'') (str '' AM'') (b @ 32 # meridiem_text p))
         = b @ 32 # 32 # upper_text p"
  using py_replace_skip[OF not_letter_space(1)[OF assms], of "[109]"]
        py_replace_skip[OF not_letter_space(2)[OF assms], of "[109]"]
  by (cases p) (simp_all add: str_def meridiem_text_def upper_text_def)

lemma strip_upper2:
  assumes "list_all plain_char b" "b \<noteq> []"
  shows "strip (b @ 32 # 32 # upper_text p) = b @ 32 # 32 # upper_text p"
proof (rule strip_id, rule disjI2, rule conjI)
  from assms obtain c cs where b: "b = c # cs" by (cases b) auto
  with assms(1) have "plain_char c" by simp
  then show "\<not> isspace (hd (b @ 32 # 32 # upper_text p))"
    using phrase_char_facts(1)[OF plain_phrase] by (simp add: b)
  show "\<not> isspace (last (b @ 32 # 32 # upper_text p))"
    by (cases p) (simp_all add: upper_text_def isspace_def)
qed

lemma parse_am_pm_hour2:
  assumes "1 \<le> h" "h \<le> 12"
  shows "parse_am_pm U (dec h @ 32 # meridiem_text p) = Inr (hour12 h p, 0)"
proof -
  have pl: "list_all plain_char (dec h)" using assms by (simp add: plain_dec)
  show ?thesis
    using strptime_I_p_ok2[OF assms, of p]
    using plain_no_colon_dec[of h] upper_no_colon[of p] assms
    by (simp add: parse_am_pm_def spaced_replace[OF pl] strip_upper2[OF pl dec_nonempty(1)] Let_def)
qed

lemma parse_am_pm_hour_minute2:
  assumes "1 \<le> h" "h \<le> 12" "m < 60"
  shows "parse_am_pm U (dec h @ 58 # dec2 m @ 32 # meridiem_text p) = Inr (hour12 h p, m)"
proof -
  have pl: "list_all plain_char (dec h @ 58 # dec2 m)"
    using assms by (simp add: plain_dec plain_dec2) (simp add: plain_char_def)
  have ne: "dec h @ 58 # dec2 m \<noteq> []" by simp
  show ?thesis
    using strptime_I_M_p_ok2[OF assms, of U p] spaced_replace[OF pl, of p]
      strip_upper2[OF pl ne, of p]
    by (simp add: parse_am_pm_def Let_def)
qed

lemma date_branch_dispatch_spaced:
  assumes "valid_phrase tp"
  shows "(if contains (str ''am'') (spaced_text tp) \<or> contains (str ''pm'') (spaced_text tp)
          then parse_am_pm U (spaced_text tp)
          else strptime_H_M U (strip (spaced_text tp))) = Inr (hour_of tp, minute_of tp)"
proof (cases tp rule: time_text.cases)
  case (1 h p)
  with assms have h: "1 \<le> h" "h \<le> 12" by simp_all
  have pl: "list_all plain_char (dec h)" using h by (simp add: plain_dec)
  show ?thesis
    using spaced_contains[OF pl, of p] parse_am_pm_hour2[OF h, of U p]
    by (simp add: 1 str_def)
next
  case (2 h m p)
  with assms have h: "1 \<le> h" "h \<le> 12" "m < 60" by simp_all
  have pl: "list_all plain_char (dec h @ 58 # dec2 m)"
    using h by (simp add: plain_dec plain_dec2) (simp add: plain_char_def)
  show ?thesis
    using spaced_contains[OF pl, of p] parse_am_pm_hour_minute2[OF h, of U p]
    by (simp add: 2 str_def)
next
  case (3 h m)
  then have "spaced_text tp = time_text tp" by simp
  with date_branch_dispatch[OF assms, of U] show ?thesis by (simp only:)
qed


text \<open>A string of characters of a phrase and spaces, with no space at either end.\<close>

lemma prep_gap:
  assumes "list_all (\<lambda>c. phrase_char c \<or> c = 32) s" "s \<noteq> []"
    "phrase_char (hd s)" "phrase_char (last s)"
  shows "py_lower U (strip s) = s"
proof -
  have st: "strip s = s"
    using assms(3,4) by (intro strip_id) (simp add: phrase_char_facts)
  have lt: "list_all (\<lambda>c. c < 128) s"
    using assms(1) by (auto simp: list_all_iff phrase_char_facts)
  have "ascii_lower c = c" if "c \<in> set s" for c
  proof -
    from that assms(1) have "phrase_char c \<or> c = 32" by (simp add: list_all_iff)
    then show ?thesis
    proof
      assume "phrase_char c" then show ?thesis by (rule phrase_char_facts(3))
    next
      assume "c = 32" then show ?thesis by (simp add: ascii_lower_def)
    qed
  qed
  then have "map ascii_lower s = s" by (intro map_idI)
  then show ?thesis using lt by (simp add: st py_lower_def)
qed

lemma plain_no_space: "list_all plain_char b \<Longrightarrow> \<forall>c \<in> set b. c \<noteq> 32"
  by (auto simp: list_all_iff plain_char_def)

lemma split_at_space:
  assumes "list_all plain_char b"
  shows "takeWhile (\<lambda>c. c \<noteq> 32) (b @ 32 # t) = b"
    "drop (Suc 0) (dropWhile (\<lambda>c. c \<noteq> 32) (b @ 32 # t)) = t"
  using plain_no_space[OF assms] by (simp_all add: takeWhile_tail dropWhile_append3)

lemma re_Y_short: "length s < 4 \<Longrightarrow> re_Y U s = []"
proof -
  assume l: "length s < 4"
  have d: "d_any U (c # t) = [] \<or> (\<exists>v. d_any U (c # t) = [(v, t)])" for c t
    by (simp add: d_any_def split: option.splits)
  have e: "d_any U [] = []" by (simp add: d_any_def)
  consider "s = []" | a where "s = [a]" | a b where "s = [a, b]" | a b c where "s = [a, b, c]"
    using l by (cases s rule: list.exhaust; simp; cases "tl s"; simp; cases "tl (tl s)"; simp;
        cases "tl (tl (tl s))"; auto)
  then show ?thesis
  proof cases
    case 1 then show ?thesis by (simp add: re_Y_def e then_p_simps)
  next
    case 2 then show ?thesis using d[of a "[]"] by (auto simp: re_Y_def e then_p_simps)
  next
    case 3 then show ?thesis using d[of a "[b]"] d[of b "[]"]
      by (auto simp: re_Y_def e then_p_simps)
  next
    case 4 then show ?thesis using d[of a "[b, c]"] d[of b "[c]"] d[of c "[]"]
      by (auto simp: re_Y_def e then_p_simps)
  qed
qed

lemma re_Y_colon: "re_Y U (a # 58 # t) = []" "re_Y U (a # b # 58 # t) = []"
proof -
  have d: "d_any U (c # t) = [] \<or> (\<exists>v. d_any U (c # t) = [(v, t)])" for c t
    by (simp add: d_any_def split: option.splits)
  have c: "d_any U (58 # t) = []" for t by (simp add: d_any_other)
  show "re_Y U (a # 58 # t) = []" using d[of a "58 # t"]
    by (auto simp: re_Y_def c then_p_simps)
  show "re_Y U (a # b # 58 # t) = []" using d[of a "b # 58 # t"] d[of b "58 # t"]
    by (auto simp: re_Y_def c then_p_simps)
qed

lemma strptime_Y_m_d_fails: "re_Y U s = [] \<Longrightarrow> strptime_Y_m_d U s = Inl ValueError"
  by (simp add: strptime_Y_m_d_def then_p_simps finish_def)

lemma meridiem_text_chars:
  "list_all phrase_char (meridiem_text p)" "meridiem_text p \<noteq> []"
  "phrase_char (last (meridiem_text p))"
  by (cases p; simp add: meridiem_text_def str_def phrase_char_def)+

lemma gap_chars:
  assumes "list_all plain_char b" "b \<noteq> []" "list_all phrase_char t" "t \<noteq> []"
  shows "list_all (\<lambda>c. phrase_char c \<or> c = 32) (b @ 32 # t)" "b @ 32 # t \<noteq> []"
    "phrase_char (hd (b @ 32 # t))" "phrase_char (last (b @ 32 # t))"
proof -
  show "list_all (\<lambda>c. phrase_char c \<or> c = 32) (b @ 32 # t)"
    using assms(1,3) by (auto simp: list_all_iff plain_phrase)
  show "b @ 32 # t \<noteq> []" by simp
  from assms(2) have "hd (b @ 32 # t) \<in> set b" by simp
  with assms(1) show "phrase_char (hd (b @ 32 # t))" by (auto simp: list_all_iff plain_phrase)
  from assms(4) have "last (b @ 32 # t) \<in> set t" by simp
  with assms(3) show "phrase_char (last (b @ 32 # t))" by (auto simp: list_all_iff)
qed

lemma time_only_spaced:
  assumes "valid_phrase tp" "spaced_text tp \<noteq> time_text tp"
  shows "parse_schedule_time U now (spaced_text tp) = None"
proof -
  have fails: "parse_schedule_time U now (b @ 32 # meridiem_text p) = None"
    if pl: "list_all plain_char b" and ne: "b \<noteq> []" and y: "re_Y U b = []" for b p
  proof -
    note g = gap_chars[OF pl ne meridiem_text_chars(1,2), of p]
    have lo: "py_lower U (strip (b @ 32 # meridiem_text p)) = b @ 32 # meridiem_text p"
      by (rule prep_gap[OF g])
    have "parse_body U now (b @ 32 # meridiem_text p) = Inl ValueError"
      unfolding parse_body_def Let_def One_nat_def split_at_space[OF pl]
        strptime_Y_m_d_fails[OF y]
      by simp
    then show ?thesis by (simp add: parse_schedule_time_def lo)
  qed
  show ?thesis
  proof (cases tp rule: time_text.cases)
    case (1 h p)
    with assms have h: "1 \<le> h" "h \<le> 12" by simp_all
    have pl: "list_all plain_char (dec h)" using h by (simp add: plain_dec)
    have "length (dec h) < 4" by (simp add: dec_def dec2_def)
    from fails[OF pl dec_nonempty(1) re_Y_short[OF this]] show ?thesis
      by (simp add: 1 str_def)
  next
    case (2 h m p)
    with assms have h: "1 \<le> h" "h \<le> 12" "m < 60" by simp_all
    have pl: "list_all plain_char (dec h @ 58 # dec2 m)"
      using h by (simp add: plain_dec plain_dec2) (simp add: plain_char_def)
    have "re_Y U (dec h @ 58 # dec2 m) = []"
      by (simp add: dec_def dec2_def re_Y_colon)
    from fails[OF pl _ this] show ?thesis by (simp add: 2 str_def)
  next
    case (3 h m)
    with assms(2) show ?thesis by simp
  qed
qed

lemma date_text_chars:
  assumes "valid_date y m d"
  shows "list_all plain_char (date_text y m d)"
proof -
  from assms have "y \<le> 9999" "m < 100" "d < 100"
    using days_in_month_le[of y m] by (auto simp: valid_date_def)
  then show ?thesis
    by (simp add: date_text_def str_def plain_dec4 plain_dec2) (simp add: plain_char_def)
qed

lemma spaced_text_chars:
  assumes "valid_phrase tp"
  shows "list_all (\<lambda>c. phrase_char c \<or> c = 32) (spaced_text tp)" "spaced_text tp \<noteq> []"
    "phrase_char (last (spaced_text tp))"
proof -
  have a: "list_all (\<lambda>c. phrase_char c \<or> c = 32) (spaced_text tp) \<and> spaced_text tp \<noteq> [] \<and>
    phrase_char (last (spaced_text tp))"
  proof (cases tp rule: time_text.cases)
    case (1 h p)
    with assms have h: "1 \<le> h" "h \<le> 12" by simp_all
    have pl: "list_all plain_char (dec h)" using h by (simp add: plain_dec)
    from gap_chars(1,2,4)[OF pl dec_nonempty(1) meridiem_text_chars(1,2), of p]
    show ?thesis by (simp add: 1 str_def)
  next
    case (2 h m p)
    with assms have h: "1 \<le> h" "h \<le> 12" "m < 60" by simp_all
    have pl: "list_all plain_char (dec h @ 58 # dec2 m)"
      using h by (simp add: plain_dec plain_dec2) (simp add: plain_char_def)
    have ne: "dec h @ 58 # dec2 m \<noteq> []" by simp
    from gap_chars(1,2,4)[OF pl ne meridiem_text_chars(1,2), of p]
    show ?thesis by (simp add: 2 str_def)
  next
    case (3 h m)
    then have eq: "spaced_text tp = time_text tp" by simp
    have tc: "list_all phrase_char (time_text tp)" by (rule time_text_chars[OF assms])
    have "time_text tp \<noteq> []" using 3 by (simp add: dec2_def)
    then have "last (time_text tp) \<in> set (time_text tp)" by simp
    with tc show ?thesis unfolding eq by (auto simp: list_all_iff 3 dec2_def)
  qed
  then show "list_all (\<lambda>c. phrase_char c \<or> c = 32) (spaced_text tp)" "spaced_text tp \<noteq> []"
    "phrase_char (last (spaced_text tp))" by simp_all
qed

lemma time_text_ends:
  assumes "valid_phrase tp"
  shows "time_text tp \<noteq> []" "phrase_char (last (time_text tp))"
proof -
  show ne: "time_text tp \<noteq> []"
    by (cases tp rule: time_text.cases) (simp_all add: dec_def dec2_def)
  then have "last (time_text tp) \<in> set (time_text tp)" by simp
  with time_text_chars[OF assms] show "phrase_char (last (time_text tp))"
    by (auto simp: list_all_iff)
qed

lemma date_time_core:
  assumes "valid_date y m d"
    "list_all (\<lambda>c. phrase_char c \<or> c = 32) t" "t \<noteq> []" "phrase_char (last t)"
    "(if contains (str ''am'') t \<or> contains (str ''pm'') t then parse_am_pm U t
      else strptime_H_M U (strip t)) = Inr (h, mi)"
  shows "parse_schedule_time U now (date_text y m d @ 32 # t) =
     Some \<lparr>year = y, month = m, day = d, hour = h, minute = mi, second = 0, microsecond = 0\<rparr>"
proof -
  let ?d = "date_text y m d"
  have dp: "list_all plain_char ?d" by (rule date_text_chars[OF assms(1)])
  have dne: "?d \<noteq> []" by (simp add: date_text_def dec4_def)
  have all: "list_all (\<lambda>c. phrase_char c \<or> c = 32) (?d @ 32 # t)"
    using dp assms(2) by (auto simp: list_all_iff plain_phrase)
  from dne have "hd (?d @ 32 # t) \<in> set ?d" by simp
  with dp have h: "phrase_char (hd (?d @ 32 # t))" by (auto simp: list_all_iff plain_phrase)
  have l: "phrase_char (last (?d @ 32 # t))" using assms(3,4) by simp
  have lo: "py_lower U (strip (?d @ 32 # t)) = ?d @ 32 # t"
    by (rule prep_gap[OF all _ h l]) simp
  note S = strptime_Y_m_d_ok[OF assms(1), of U]
  have body: "parse_body U now (?d @ 32 # t) =
     Inr \<lparr>year = y, month = m, day = d, hour = h, minute = mi, second = 0, microsecond = 0\<rparr>"
    unfolding parse_body_def Let_def One_nat_def split_at_space[OF dp] S assms(5) by simp
  show ?thesis by (simp add: parse_schedule_time_def lo body)
qed

text \<open>The texts and moments of the concrete runs.\<close>

lemma run_texts:
  "time_text (Clock12 9 None AM) = str ''9am''"
  "spaced_text (Clock12 9 None AM) = str ''9 am''"
  "time_text (Clock24 14 0) = str ''14:00''"
  "dec 14 = str ''14''"
  "dec 9 = str ''9''"
  "date_text 2025 1 15 = str ''2025-01-15''"
  by (simp_all add: str_def dec_def dec2_def dec4_def date_text_def meridiem_text_def)

lemma run_moments:
  "valid_datetime noon" "\<not> last_day noon"
  "valid_datetime last_evening" "last_day last_evening"
  by (simp_all add: valid_datetime_def valid_date_def days_in_month_def last_day_def noon_def
      last_evening_def)

lemma run_phrases:
  "valid_phrase (Clock12 9 None AM)" "valid_phrase (Clock24 14 0)"
  "hour_of (Clock12 9 None AM) = 9" "minute_of (Clock12 9 None AM) = 0"
  by (simp_all add: hour12_def)

lemma run_order:
  "dt_le (same_day noon (Clock12 9 None AM)) noon"
  "\<not> dt_le (same_day noon (Clock24 14 0)) noon"
  "dt_le (same_day last_evening (Clock12 9 None AM)) last_evening"
  "dt_le (noon\<lparr>hour := 9, minute := 0, second := 0, microsecond := 0\<rparr>) noon"
  "\<not> dt_le (noon\<lparr>hour := 14, minute := 0, second := 0, microsecond := 0\<rparr>) noon"
  "dt_le (last_evening\<lparr>hour := 14, minute := 0, second := 0, microsecond := 0\<rparr>) last_evening"
  by (simp_all add: dt_le_def dt_fields_def same_day_def noon_def last_evening_def hour12_def)

lemma run_next_day:
  "add_one_day (noon\<lparr>hour := 9, minute := 0, second := 0, microsecond := 0\<rparr>) =
     Inr \<lparr>year = 2025, month = 1, day = 16, hour = 9, minute = 0, second = 0, microsecond = 0\<rparr>"
  by (simp add: add_one_day_def noon_def days_in_month_def)

lemma parse_bare_hour:
  assumes "h < 24" "s = dec h \<or> s = dec2 h"
  shows "parse_schedule_time U now s =
     (let result = now\<lparr>hour := h, minute := 0, second := 0, microsecond := 0\<rparr>
      in if dt_le result now
         then (case add_one_day result of Inl e \<Rightarrow> None | Inr t \<Rightarrow> Some t)
         else Some result)"
proof -
  have pl: "list_all plain_char s"
    using assms by (auto simp: plain_dec plain_dec2)
  then have ch: "list_all phrase_char s" by (auto simp: list_all_iff plain_phrase)
  have nc: "58 \<notin> set s"
  proof -
    have a: "h div 10 \<noteq> 10" using assms(1) by simp
    have b: "h mod 10 \<noteq> 10" by (metis mod_less_divisor less_irrefl zero_less_numeral)
    have "58 \<notin> set (dec2 h)" using a b by (simp add: dec2_def)
    moreover have "58 \<notin> set (dec h)" using assms(1) by (intro plain_no_colon_dec) simp
    ultimately show ?thesis using assms(2) by auto
  qed
  have st: "strip s = s"
    using prep_phrase(1)[OF ch, of ascii_db] ch assms(2)
    by (intro strip_id) (auto simp: list_all_iff dec_def dec2_def phrase_char_facts split: if_splits)
  have lo: "py_lower U s = s"
    using prep_phrase(1)[OF ch, of U] st by simp
  have sp: "strptime_H U s = Inr (h, 0)"
    using strptime_H_ok[OF assms(1), of U] assms(2) by auto
  show ?thesis
    using plain_no_letters[OF pl] nc sp prep_phrase(2)[OF ch]
    by (simp add: parse_schedule_time_def lo parse_body_def Let_def st)
qed


text \<open>
  C5. For a time phrase of the time-only grammar, written as the program's own examples
  are (\<open>9am\<close>, \<open>10:30pm\<close>, \<open>14:00\<close>): when its same-day resolution is strictly after now,
  the parser returns it unshifted; when it is earlier than or equal to now, the parser
  returns the timestamp exactly 24 hours later (86400000000 microseconds on the timeline,
  the next day of the calendar) with the same hour and minute, unless today is
  9999-12-31, the last date a timestamp can hold, where it returns no timestamp. A
  time-only phrase with a space before \<open>am\<close> or \<open>pm\<close> (\<open>9 am\<close>) is read as a date and a
  time, and the parser returns no timestamp.
\<close>

theorem time_only_rollover:
  assumes "valid_phrase tp" "valid_datetime now"
  shows "(\<not> dt_le (same_day now tp) now \<longrightarrow>
            parse_schedule_time U now (time_text tp) = Some (same_day now tp)) \<and>
         (dt_le (same_day now tp) now \<and> \<not> last_day now \<longrightarrow>
            (\<exists>r. parse_schedule_time U now (time_text tp) = Some r \<and>
                 timeline r = timeline (same_day now tp) + 86400000000 \<and>
                 toordinal r = toordinal now + 1 \<and>
                 hour r = hour_of tp \<and> minute r = minute_of tp \<and> second r = 0 \<and>
                 microsecond r = 0)) \<and>
         (dt_le (same_day now tp) now \<and> last_day now \<longrightarrow>
            parse_schedule_time U now (time_text tp) = None) \<and>
         (spaced_text tp \<noteq> time_text tp \<longrightarrow>
            parse_schedule_time U now (spaced_text tp) = None)"
proof (intro conjI impI)
  assume "\<not> dt_le (same_day now tp) now"
  then show "parse_schedule_time U now (time_text tp) = Some (same_day now tp)"
    by (simp add: parse_time_only[OF assms(1)])
next
  assume a: "dt_le (same_day now tp) now \<and> \<not> last_day now"
  then have nl: "\<not> (year now = 9999 \<and> month now = 12 \<and> day now = 31)"
    by (simp add: last_day_def)
  from rollover[OF assms(2) nl, where h = "hour_of tp" and mi = "minute_of tp"] obtain t where
    t: "add_one_day (same_day now tp) = Inr t" and
    p: "toordinal t = toordinal now + 1" "timeline t = timeline (same_day now tp) + 86400000000"
       "hour t = hour_of tp" "minute t = minute_of tp" "second t = 0" "microsecond t = 0"
    unfolding same_day_def by blast
  have "parse_schedule_time U now (time_text tp) = Some t"
    using a t by (simp add: parse_time_only[OF assms(1)])
  with p show "\<exists>r. parse_schedule_time U now (time_text tp) = Some r \<and>
                 timeline r = timeline (same_day now tp) + 86400000000 \<and>
                 toordinal r = toordinal now + 1 \<and>
                 hour r = hour_of tp \<and> minute r = minute_of tp \<and> second r = 0 \<and>
                 microsecond r = 0" by simp
next
  assume a: "dt_le (same_day now tp) now \<and> last_day now"
  then have "last_day (same_day now tp)" by (simp add: last_day_def same_day_def)
  from add_one_day_last[OF this] a
  show "parse_schedule_time U now (time_text tp) = None"
    by (simp add: parse_time_only[OF assms(1)])
next
  assume "spaced_text tp \<noteq> time_text tp"
  then show "parse_schedule_time U now (spaced_text tp) = None"
    by (rule time_only_spaced[OF assms(1)])
qed

theorem time_only_rollover_witness:
  "parse_schedule_time ascii_db noon (str ''14:00'') =
     Some \<lparr>year = 2025, month = 1, day = 15, hour = 14, minute = 0, second = 0, microsecond = 0\<rparr> \<and>
   parse_schedule_time ascii_db noon (str ''9am'') =
     Some \<lparr>year = 2025, month = 1, day = 16, hour = 9, minute = 0, second = 0, microsecond = 0\<rparr> \<and>
   timeline \<lparr>year = 2025, month = 1, day = 16, hour = 9, minute = 0, second = 0, microsecond = 0\<rparr> =
     timeline \<lparr>year = 2025, month = 1, day = 15, hour = 9, minute = 0, second = 0, microsecond = 0\<rparr>
       + 86400000000 \<and>
   parse_schedule_time ascii_db last_evening (str ''9am'') = None \<and>
   parse_schedule_time ascii_db noon (str ''9 am'') = None"
proof -
  note a = time_only_rollover[OF run_phrases(2) run_moments(1), of ascii_db]
  note b = time_only_rollover[OF run_phrases(1) run_moments(1), of ascii_db]
  note c = time_only_rollover[OF run_phrases(1) run_moments(3), of ascii_db]
  have "parse_schedule_time ascii_db noon (time_text (Clock24 14 0)) =
      Some (same_day noon (Clock24 14 0))"
    using a run_order(2) by blast
  then have 1: "parse_schedule_time ascii_db noon (str ''14:00'') =
     Some \<lparr>year = 2025, month = 1, day = 15, hour = 14, minute = 0, second = 0, microsecond = 0\<rparr>"
    unfolding run_texts by (simp add: same_day_def noon_def)
  from b run_order(1) run_moments(2) obtain r where
    r: "parse_schedule_time ascii_db noon (time_text (Clock12 9 None AM)) = Some r"
       "timeline r = timeline (same_day noon (Clock12 9 None AM)) + 86400000000"
    by blast
  have "parse_schedule_time ascii_db noon (time_text (Clock12 9 None AM)) =
     Some \<lparr>year = 2025, month = 1, day = 16, hour = 9, minute = 0, second = 0, microsecond = 0\<rparr>"
    unfolding parse_time_only[OF run_phrases(1)] using run_order(1) run_next_day
    by (simp add: same_day_def hour12_def)
  with r(1) have v: "r = \<lparr>year = 2025, month = 1, day = 16, hour = 9, minute = 0, second = 0,
      microsecond = 0\<rparr>" by simp
  from r(1) have 2: "parse_schedule_time ascii_db noon (str ''9am'') =
     Some \<lparr>year = 2025, month = 1, day = 16, hour = 9, minute = 0, second = 0, microsecond = 0\<rparr>"
    unfolding run_texts v .
  from r(2) have 3: "timeline \<lparr>year = 2025, month = 1, day = 16, hour = 9, minute = 0,
      second = 0, microsecond = 0\<rparr> = timeline \<lparr>year = 2025, month = 1, day = 15, hour = 9,
      minute = 0, second = 0, microsecond = 0\<rparr> + 86400000000"
    unfolding v by (simp add: same_day_def noon_def hour12_def)
  have "parse_schedule_time ascii_db last_evening (time_text (Clock12 9 None AM)) = None"
    using c run_order(3) run_moments(4) by blast
  then have 4: "parse_schedule_time ascii_db last_evening (str ''9am'') = None"
    unfolding run_texts .
  have "spaced_text (Clock12 9 None AM) \<noteq> time_text (Clock12 9 None AM)"
    by (simp add: str_def)
  with b have "parse_schedule_time ascii_db noon (spaced_text (Clock12 9 None AM)) = None"
    by blast
  then have 5: "parse_schedule_time ascii_db noon (str ''9 am'') = None"
    unfolding run_texts .
  from 1 2 3 4 5 show ?thesis by (intro conjI)
qed

theorem time_only_rollover_counterexample:
  "valid_phrase (Clock12 9 None AM) \<and> time_text (Clock12 9 None AM) = str ''9am'' \<and>
   valid_datetime last_evening \<and>
   dt_le (same_day last_evening (Clock12 9 None AM)) last_evening \<and>
   parse_schedule_time ascii_db last_evening (str ''9am'') = None \<and>
   spaced_text (Clock12 9 None AM) = str ''9 am'' \<and>
   parse_schedule_time ascii_db noon (str ''9 am'') = None"
proof -
  have "last_day (same_day last_evening (Clock12 9 None AM))"
    using run_moments(4) by (simp add: last_day_def same_day_def)
  from add_one_day_last[OF this]
  have "parse_schedule_time ascii_db last_evening (time_text (Clock12 9 None AM)) = None"
    unfolding parse_time_only[OF run_phrases(1)] using run_order(3) by simp
  then have 1: "parse_schedule_time ascii_db last_evening (str ''9am'') = None"
    unfolding run_texts .
  have "spaced_text (Clock12 9 None AM) \<noteq> time_text (Clock12 9 None AM)"
    by (simp add: str_def)
  from time_only_spaced[OF run_phrases(1) this, of ascii_db noon]
  have 2: "parse_schedule_time ascii_db noon (str ''9 am'') = None"
    unfolding run_texts .
  from run_phrases(1) run_texts(1) run_moments(3) run_order(3) 1 run_texts(2) 2
  show ?thesis by (intro conjI)
qed


text \<open>
  C6. For every phrase combining a \<open>YYYY-MM-DD\<close> date that exists with a valid time, with
  or without a space before \<open>am\<close> or \<open>pm\<close>, the parser returns exactly the timestamp
  specified, with second 0, whatever the current moment is: no day is added, even when
  the timestamp is in the past.
\<close>

theorem date_time_absolute:
  assumes "valid_date y m d" "valid_phrase tp" "t = time_text tp \<or> t = spaced_text tp"
  shows "parse_schedule_time U now (date_text y m d @ str '' '' @ t) =
     Some \<lparr>year = y, month = m, day = d, hour = hour_of tp, minute = minute_of tp,
           second = 0, microsecond = 0\<rparr>"
proof -
  have sp: "str '' '' = [32]" by (simp add: str_def)
  from assms(3) show ?thesis
  proof
    assume t: "t = time_text tp"
    have tc: "list_all (\<lambda>c. phrase_char c \<or> c = 32) (time_text tp)"
      using time_text_chars[OF assms(2)] by (auto simp: list_all_iff)
    from date_time_core[OF assms(1) tc time_text_ends[OF assms(2)]
        date_branch_dispatch[OF assms(2), of U], of now]
    show ?thesis by (simp add: t sp)
  next
    assume t: "t = spaced_text tp"
    from date_time_core[OF assms(1) spaced_text_chars[OF assms(2)]
        date_branch_dispatch_spaced[OF assms(2), of U], of now]
    show ?thesis by (simp add: t sp)
  qed
qed

theorem date_time_absolute_witness:
  "parse_schedule_time ascii_db noon (str ''2025-01-15 9am'') =
     Some \<lparr>year = 2025, month = 1, day = 15, hour = 9, minute = 0, second = 0, microsecond = 0\<rparr> \<and>
   parse_schedule_time ascii_db noon (str ''2025-01-15 9 am'') =
     Some \<lparr>year = 2025, month = 1, day = 15, hour = 9, minute = 0, second = 0, microsecond = 0\<rparr> \<and>
   dt_le \<lparr>year = 2025, month = 1, day = 15, hour = 9, minute = 0, second = 0, microsecond = 0\<rparr>
     noon"
proof -
  have v: "valid_date 2025 1 15" by (simp add: valid_date_def days_in_month_def)
  have a: "date_text 2025 1 15 @ str '' '' @ time_text (Clock12 9 None AM) = str ''2025-01-15 9am''"
    unfolding run_texts by (simp add: str_def)
  have b: "date_text 2025 1 15 @ str '' '' @ spaced_text (Clock12 9 None AM) =
      str ''2025-01-15 9 am''"
    unfolding run_texts by (simp add: str_def)
  have 1: "parse_schedule_time ascii_db noon (str ''2025-01-15 9am'') =
     Some \<lparr>year = 2025, month = 1, day = 15, hour = 9, minute = 0, second = 0, microsecond = 0\<rparr>"
    using date_time_absolute[OF v run_phrases(1), of "time_text (Clock12 9 None AM)" ascii_db noon]
    unfolding a run_phrases by simp
  have 2: "parse_schedule_time ascii_db noon (str ''2025-01-15 9 am'') =
     Some \<lparr>year = 2025, month = 1, day = 15, hour = 9, minute = 0, second = 0, microsecond = 0\<rparr>"
    using date_time_absolute[OF v run_phrases(1), of "spaced_text (Clock12 9 None AM)" ascii_db noon]
    unfolding b run_phrases by simp
  have 3: "dt_le \<lparr>year = 2025, month = 1, day = 15, hour = 9, minute = 0, second = 0,
      microsecond = 0\<rparr> noon"
    by (simp add: dt_le_def dt_fields_def noon_def)
  from 1 2 3 show ?thesis by (intro conjI)
qed


text \<open>
  C10. The time-only path also accepts a bare hour of the 24-hour clock with no minutes,
  written with one or two digits (\<open>14\<close>, \<open>9\<close>, \<open>09\<close>): when that hour of today is strictly
  after now, the parser returns today's date at that hour, minute 0 and second 0; when it
  is earlier than or equal to now, it returns tomorrow's date at that hour, minute 0 and
  second 0, exactly 24 hours later, unless today is 9999-12-31, where it returns no
  timestamp.
\<close>

theorem bare_hour_accepted:
  assumes "h < 24" "valid_datetime now" "s = dec h \<or> s = dec2 h"
    "today = now\<lparr>hour := h, minute := 0, second := 0, microsecond := 0\<rparr>"
  shows "(\<not> dt_le today now \<longrightarrow> parse_schedule_time U now s = Some today) \<and>
         (dt_le today now \<and> \<not> last_day now \<longrightarrow>
            (\<exists>r. parse_schedule_time U now s = Some r \<and>
                 toordinal r = toordinal now + 1 \<and> timeline r = timeline today + 86400000000 \<and>
                 hour r = h \<and> minute r = 0 \<and> second r = 0 \<and> microsecond r = 0)) \<and>
         (dt_le today now \<and> last_day now \<longrightarrow> parse_schedule_time U now s = None)"
proof (intro conjI impI)
  note body = parse_bare_hour[OF assms(1,3), of U now, unfolded Let_def, folded assms(4)]
  {
    assume "\<not> dt_le today now"
    then show "parse_schedule_time U now s = Some today" by (simp add: body)
  next
    assume a: "dt_le today now \<and> \<not> last_day now"
    then have nl: "\<not> (year now = 9999 \<and> month now = 12 \<and> day now = 31)"
      by (simp add: last_day_def)
    from rollover[OF assms(2) nl, where h = h and mi = 0] obtain t where
      t: "add_one_day today = Inr t" and
      p: "toordinal t = toordinal now + 1" "timeline t = timeline today + 86400000000"
         "hour t = h" "minute t = 0" "second t = 0" "microsecond t = 0"
      unfolding assms(4) by blast
    have "parse_schedule_time U now s = Some t" using a t by (simp add: body)
    with p show "\<exists>r. parse_schedule_time U now s = Some r \<and>
                 toordinal r = toordinal now + 1 \<and> timeline r = timeline today + 86400000000 \<and>
                 hour r = h \<and> minute r = 0 \<and> second r = 0 \<and> microsecond r = 0" by simp
  next
    assume a: "dt_le today now \<and> last_day now"
    then have "last_day today" by (simp add: last_day_def assms(4))
    from add_one_day_last[OF this] a show "parse_schedule_time U now s = None"
      by (simp add: body)
  }
qed

theorem bare_hour_accepted_witness:
  "parse_schedule_time ascii_db noon (str ''14'') =
     Some \<lparr>year = 2025, month = 1, day = 15, hour = 14, minute = 0, second = 0, microsecond = 0\<rparr> \<and>
   parse_schedule_time ascii_db noon (str ''9'') =
     Some \<lparr>year = 2025, month = 1, day = 16, hour = 9, minute = 0, second = 0, microsecond = 0\<rparr> \<and>
   parse_schedule_time ascii_db last_evening (str ''14'') = None"
proof -
  have h: "(14::nat) < 24" "(9::nat) < 24" by simp_all
  note a = bare_hour_accepted[OF h(1) run_moments(1) disjI1[OF refl] refl, of ascii_db]
  note b = bare_hour_accepted[OF h(2) run_moments(1) disjI1[OF refl] refl, of ascii_db]
  note c = bare_hour_accepted[OF h(1) run_moments(3) disjI1[OF refl] refl, of ascii_db]
  have "parse_schedule_time ascii_db noon (dec 14) =
      Some (noon\<lparr>hour := 14, minute := 0, second := 0, microsecond := 0\<rparr>)"
    using a run_order(5) by blast
  then have 1: "parse_schedule_time ascii_db noon (str ''14'') =
     Some \<lparr>year = 2025, month = 1, day = 15, hour = 14, minute = 0, second = 0, microsecond = 0\<rparr>"
    unfolding run_texts by (simp add: noon_def)
  from b run_order(4) run_moments(2) obtain r where
    r: "parse_schedule_time ascii_db noon (dec 9) = Some r" by blast
  have "parse_schedule_time ascii_db noon (dec 9) =
     Some \<lparr>year = 2025, month = 1, day = 16, hour = 9, minute = 0, second = 0, microsecond = 0\<rparr>"
    unfolding parse_bare_hour[OF h(2) disjI1[OF refl]] using run_order(4) run_next_day
    by (simp add: Let_def)
  with r have "parse_schedule_time ascii_db noon (dec 9) =
     Some \<lparr>year = 2025, month = 1, day = 16, hour = 9, minute = 0, second = 0, microsecond = 0\<rparr>"
    by simp
  then have 2: "parse_schedule_time ascii_db noon (str ''9'') =
     Some \<lparr>year = 2025, month = 1, day = 16, hour = 9, minute = 0, second = 0, microsecond = 0\<rparr>"
    unfolding run_texts .
  have "parse_schedule_time ascii_db last_evening (dec 14) = None"
    using c run_order(6) run_moments(4) by blast
  then have 3: "parse_schedule_time ascii_db last_evening (str ''14'') = None"
    unfolding run_texts .
  from 1 2 3 show ?thesis by (intro conjI)
qed

theorem bare_hour_accepted_counterexample:
  "valid_datetime last_evening \<and>
   dt_le (last_evening\<lparr>hour := 14, minute := 0, second := 0, microsecond := 0\<rparr>) last_evening \<and>
   parse_schedule_time ascii_db last_evening (str ''14'') = None"
proof -
  have h: "(14::nat) < 24" by simp
  have "last_day (last_evening\<lparr>hour := 14, minute := 0, second := 0, microsecond := 0\<rparr>)"
    using run_moments(4) by (simp add: last_day_def)
  from add_one_day_last[OF this]
  have "parse_schedule_time ascii_db last_evening (dec 14) = None"
    unfolding parse_bare_hour[OF h disjI1[OF refl]] using run_order(6) by (simp add: Let_def)
  then have "parse_schedule_time ascii_db last_evening (str ''14'') = None"
    unfolding run_texts .
  with run_moments(3) run_order(6) show ?thesis by (intro conjI)
qed

end
